theory Spec2Isabelle
  imports Complex_Main "HOL-Library.Word" "HOL-Library.Char_ord" "HOL-Library.List_Lexorder"
begin

unbundle bit_operations_syntax

section \<open>Configuration\<close>

text \<open>
  The two module-level constants of \<^verbatim>\<open>transfer.py\<close>:
  \<^verbatim>\<open>CHUNK_SIZE = 120 * 1024\<close> and \<^verbatim>\<open>ACK_TIMEOUT_SECONDS = 15\<close>.
\<close>

definition CHUNK_SIZE :: nat where
  "CHUNK_SIZE = 120 * 1024"

definition ACK_TIMEOUT_SECONDS :: real where
  "ACK_TIMEOUT_SECONDS = 15"

section \<open>Sender: chunking of the encoded text\<close>

text \<open>
  Python's slice \<^verbatim>\<open>s[start:end]\<close> for non-negative bounds: the elements at the
  positions \<open>start \<le> k < min end (len s)\<close>; empty when \<open>end \<le> start\<close>, never an error.
\<close>

definition py_slice :: "'a list \<Rightarrow> nat \<Rightarrow> nat \<Rightarrow> 'a list" where
  "py_slice s start end = drop start (take end s)"

text \<open>
  \<^verbatim>\<open>total_chunks = math.ceil(len(base64_string) / CHUNK_SIZE)\<close>: a true division followed by
  a ceiling. The division is modelled over the reals; Python's is a float division, which
  is exact enough for the ceiling on every length below \<open>2^53\<close>.
\<close>

definition total_chunks_of :: "string \<Rightarrow> nat" where
  "total_chunks_of s = nat \<lceil>real (length s) / real CHUNK_SIZE\<rceil>"

text \<open>
  The payload of the loop iteration \<open>i\<close> (chunk number \<open>i + 1\<close>):
  \<^verbatim>\<open>start, end = i * CHUNK_SIZE, (i + 1) * CHUNK_SIZE; payload = base64_string[start:end]\<close>.
\<close>

definition chunk_payload :: "string \<Rightarrow> nat \<Rightarrow> string" where
  "chunk_payload s i = py_slice s (i * CHUNK_SIZE) ((i + 1) * CHUNK_SIZE)"

text \<open>The payloads of \<^verbatim>\<open>for i in range(total_chunks)\<close>, in the order of the loop.\<close>

definition sender_chunks :: "string \<Rightarrow> string list" where
  "sender_chunks s = map (chunk_payload s) [0..<total_chunks_of s]"

section \<open>Python values\<close>

text \<open>
  What \<^verbatim>\<open>json.loads\<close> returns: \<^verbatim>\<open>None\<close>, a bool, an int, a str, a list or a dict with
  string keys. A dict is the list of its items, read with \<open>map_of\<close>. Numbers are the
  integers: the packets of this program carry no other number, and a float is left out of
  the model.
\<close>

datatype json =
  JNull
  | JBool bool
  | JInt int
  | JStr string
  | JArr "json list"
  | JObj "(string \<times> json) list"

text \<open>The exceptions that the code under study raises or catches.\<close>

datatype exn =
  JSONDecodeError
  | KeyError
  | TypeError
  | AttributeError
  | ValueError
  | BinasciiError

text \<open>Truth value of a Python object, as \<^verbatim>\<open>if x:\<close> and \<^verbatim>\<open>not x\<close> take it.\<close>

fun py_truthy :: "json \<Rightarrow> bool" where
  "py_truthy JNull = False"
| "py_truthy (JBool b) = b"
| "py_truthy (JInt n) = (n \<noteq> 0)"
| "py_truthy (JStr s) = (s \<noteq> [])"
| "py_truthy (JArr xs) = (xs \<noteq> [])"
| "py_truthy (JObj kvs) = (kvs \<noteq> [])"

text \<open>
  Python's \<^verbatim>\<open>==\<close> between a loaded value and an int, and between a loaded value and a str.
  \<^verbatim>\<open>True == 1\<close> and \<^verbatim>\<open>False == 0\<close> hold in Python; no other kind of value equals an int.
\<close>

fun py_eq_int :: "json \<Rightarrow> int \<Rightarrow> bool" where
  "py_eq_int (JInt m) n = (m = n)"
| "py_eq_int (JBool b) n = ((if b then 1 else 0) = n)"
| "py_eq_int _ n = False"

fun py_eq_str :: "json \<Rightarrow> string \<Rightarrow> bool" where
  "py_eq_str (JStr s) t = (s = t)"
| "py_eq_str _ t = False"

text \<open>
  Keys of the dict \<^verbatim>\<open>stored_chunks\<close>. A list and a dict are unhashable: using one as a key
  raises \<^verbatim>\<open>TypeError\<close>. \<^verbatim>\<open>True\<close> and \<^verbatim>\<open>1\<close> are the same key, as are \<^verbatim>\<open>False\<close> and \<^verbatim>\<open>0\<close>.
\<close>

datatype pykey = KNone | KInt int | KStr string

fun py_hashable :: "json \<Rightarrow> exn + pykey" where
  "py_hashable JNull = Inr KNone"
| "py_hashable (JBool b) = Inr (KInt (if b then 1 else 0))"
| "py_hashable (JInt n) = Inr (KInt n)"
| "py_hashable (JStr s) = Inr (KStr s)"
| "py_hashable (JArr xs) = Inl TypeError"
| "py_hashable (JObj kvs) = Inl TypeError"

text \<open>\<^verbatim>\<open>d.get(k)\<close> and \<^verbatim>\<open>d[k]\<close> on a dict with the items \<open>kvs\<close>.\<close>

definition dict_get :: "(string \<times> json) list \<Rightarrow> string \<Rightarrow> json" where
  "dict_get kvs k = (case map_of kvs k of None \<Rightarrow> JNull | Some v \<Rightarrow> v)"

definition dict_item :: "(string \<times> json) list \<Rightarrow> string \<Rightarrow> exn + json" where
  "dict_item kvs k = (case map_of kvs k of None \<Rightarrow> Inl KeyError | Some v \<Rightarrow> Inr v)"

text \<open>
  \<^verbatim>\<open>x[:10]\<close>: a str and a list can be sliced; an int, a bool and \<^verbatim>\<open>None\<close> raise
  \<^verbatim>\<open>TypeError\<close>, and so does a dict (Python 3.12 raises \<^verbatim>\<open>KeyError\<close> there, which the
  Receiver catches in the same clause).
\<close>

fun py_sliceable :: "json \<Rightarrow> bool" where
  "py_sliceable (JStr s) = True"
| "py_sliceable (JArr xs) = True"
| "py_sliceable _ = False"

text \<open>\<^verbatim>\<open>path.endswith(suffix)\<close> for two strings.\<close>

definition py_endswith :: "string \<Rightarrow> string \<Rightarrow> bool" where
  "py_endswith p a = (length a \<le> length p \<and> drop (length p - length a) p = a)"

section \<open>Library functions taken as parameters\<close>

type_synonym byte = "8 word"

text \<open>
  The functions of Python's standard library that the program calls and that are not
  modelled here. \<open>json_loads\<close> is \<^verbatim>\<open>json.loads\<close>, with \<open>None\<close> for \<^verbatim>\<open>JSONDecodeError\<close>;
  \<open>json_dumps\<close> is \<^verbatim>\<open>json.dumps\<close>; \<open>sha256_text s\<close> is
  \<^verbatim>\<open>hashlib.sha256(s.encode('utf-8')).hexdigest()\<close> and \<open>sha256_bytes b\<close> is
  \<^verbatim>\<open>hashlib.sha256(b).hexdigest()\<close>. A text is a list of 8-bit characters; a str that
  \<^verbatim>\<open>encode('utf-8')\<close> rejects (a lone surrogate) is outside the model.
\<close>

record pylib =
  json_loads :: "string \<Rightarrow> json option"
  json_dumps :: "json \<Rightarrow> string"
  sha256_text :: "string \<Rightarrow> string"
  sha256_bytes :: "byte list \<Rightarrow> string"

section \<open>The byte-to-text codec\<close>

text \<open>
  \<^verbatim>\<open>base64.b64encode\<close> and \<^verbatim>\<open>base64.b64decode\<close> are standard-library functions; they are
  modelled after RFC 4648 as CPython's \<^verbatim>\<open>binascii\<close> module implements it. The alphabet is
  \<^verbatim>\<open>A-Z a-z 0-9 + /\<close>, the pad character is \<^verbatim>\<open>=\<close>.
\<close>

definition b64_char :: "byte \<Rightarrow> char" where
  "b64_char v =
     (let n = unat v in
      if n < 26 then char_of (65 + n)
      else if n < 52 then char_of (71 + n)
      else if n < 62 then char_of (n - 4)
      else if n = 62 then CHR ''+''
      else CHR ''/'')"

definition b64_value :: "char \<Rightarrow> byte option" where
  "b64_value ch =
     (let n = (of_char ch :: nat) in
      if 65 \<le> n \<and> n \<le> 90 then Some (of_nat (n - 65))
      else if 97 \<le> n \<and> n \<le> 122 then Some (of_nat (n - 71))
      else if 48 \<le> n \<and> n \<le> 57 then Some (of_nat (n + 4))
      else if ch = CHR ''+'' then Some 62
      else if ch = CHR ''/'' then Some 63
      else None)"

text \<open>
  Encoding: three bytes become four characters; one or two bytes left over are encoded
  with their low bits zero and padded to four characters.
\<close>

fun b64encode :: "byte list \<Rightarrow> string" where
  "b64encode (a # b # c # rest) =
     [b64_char (drop_bit 2 a),
      b64_char (push_bit 4 (a AND 3) OR drop_bit 4 b),
      b64_char (push_bit 2 (b AND 15) OR drop_bit 6 c),
      b64_char (c AND 63)] @ b64encode rest"
| "b64encode [a, b] =
     [b64_char (drop_bit 2 a),
      b64_char (push_bit 4 (a AND 3) OR drop_bit 4 b),
      b64_char (push_bit 2 (b AND 15)),
      CHR ''='']"
| "b64encode [a] =
     [b64_char (drop_bit 2 a),
      b64_char (push_bit 4 (a AND 3)),
      CHR ''='', CHR ''='']"
| "b64encode [] = []"

text \<open>
  Decoding as \<^verbatim>\<open>binascii.a2b_base64\<close> does it in its default, non-strict mode: one pass
  over the characters with the position \<open>qp\<close> in the current group of four, the bits
  \<open>lc\<close> left over from the previous character and the count \<open>pads\<close> of pad characters
  seen in a row. A character outside the alphabet is skipped; a pad that completes a
  group ends the decoding; an unfinished group at the end of the input is an error.
\<close>

fun a2b_base64 :: "nat \<Rightarrow> byte \<Rightarrow> nat \<Rightarrow> byte list \<Rightarrow> string \<Rightarrow> exn + byte list" where
  "a2b_base64 qp lc pads out [] = (if qp \<noteq> 0 then Inl BinasciiError else Inr out)"
| "a2b_base64 qp lc pads out (ch # rest) =
     (if ch = CHR ''='' then
        (if 2 \<le> qp \<and> 4 \<le> qp + (pads + 1) then Inr out
         else a2b_base64 qp lc (if 2 \<le> qp then pads + 1 else pads) out rest)
      else
        (case b64_value ch of
           None \<Rightarrow> a2b_base64 qp lc pads out rest
         | Some v \<Rightarrow>
             (if qp = 0 then a2b_base64 1 v 0 out rest
              else if qp = 1 then
                a2b_base64 2 (v AND 15) 0 (out @ [push_bit 2 lc OR drop_bit 4 v]) rest
              else if qp = 2 then
                a2b_base64 3 (v AND 3) 0 (out @ [push_bit 4 lc OR drop_bit 2 v]) rest
              else a2b_base64 0 0 0 (out @ [push_bit 6 lc OR v]) rest)))"

text \<open>
  \<^verbatim>\<open>base64.b64decode(s)\<close> for a str \<open>s\<close>: the text is first encoded as ASCII, which raises
  \<^verbatim>\<open>ValueError\<close> on a character above 127.
\<close>

definition b64decode :: "string \<Rightarrow> exn + byte list" where
  "b64decode s =
     (if list_ex (\<lambda>ch. 128 \<le> (of_char ch :: nat)) s then Inl ValueError
      else a2b_base64 0 0 0 [] s)"

section \<open>Packets\<close>

text \<open>
  The three packets as the program builds them before \<^verbatim>\<open>json.dumps\<close>. The fields of a
  data packet are those of line 139, in its order; \<^verbatim>\<open>archive_type\<close> is \<^verbatim>\<open>None\<close> when the
  file was not archived.
\<close>

record data_fields =
  d_chunk_num :: int
  d_total_chunks :: int
  d_original_file_hash :: string
  d_archive_type :: "string option"
  d_hash :: string
  d_payload :: string

definition packet_items :: "data_fields \<Rightarrow> (string \<times> json) list" where
  "packet_items d =
     [(''type'', JStr ''data''),
      (''chunk_num'', JInt (d_chunk_num d)),
      (''total_chunks'', JInt (d_total_chunks d)),
      (''original_file_hash'', JStr (d_original_file_hash d)),
      (''archive_type'', (case d_archive_type d of None \<Rightarrow> JNull | Some a \<Rightarrow> JStr a)),
      (''hash'', JStr (d_hash d)),
      (''payload'', JStr (d_payload d))]"

definition data_packet :: "data_fields \<Rightarrow> json" where
  "data_packet d = JObj (packet_items d)"

definition ack_packet :: "json \<Rightarrow> json" where
  "ack_packet chunk_num = JObj [(''type'', JStr ''ack''), (''ack_num'', chunk_num)]"

definition finish_packet :: json where
  "finish_packet = JObj [(''type'', JStr ''finish'')]"

section \<open>Sender\<close>

text \<open>
  What \<^verbatim>\<open>run_send_mode\<close> computes before its loop (lines 123 to 128) from the bytes of the
  file to send and the archive extension (absent without \<^verbatim>\<open>--archive\<close>). Running the
  external archiver is outside the model: the bytes are those of the file that is sent.
\<close>

record send_job =
  base64_string :: string
  sent_file_hash :: string
  sent_archive_type :: "string option"

definition prepare_job :: "pylib \<Rightarrow> byte list \<Rightarrow> string option \<Rightarrow> send_job" where
  "prepare_job L binary_data ext =
     \<lparr>base64_string = b64encode binary_data,
      sent_file_hash = sha256_bytes L binary_data,
      sent_archive_type = ext\<rparr>"

text \<open>The packet written for the loop index \<open>i\<close> (lines 134 to 139).\<close>

definition chunk_fields :: "pylib \<Rightarrow> send_job \<Rightarrow> nat \<Rightarrow> data_fields" where
  "chunk_fields L job i =
     \<lparr>d_chunk_num = int i + 1,
      d_total_chunks = int (total_chunks_of (base64_string job)),
      d_original_file_hash = sent_file_hash job,
      d_archive_type = sent_archive_type job,
      d_hash = sha256_text L (chunk_payload (base64_string job) i),
      d_payload = chunk_payload (base64_string job) i\<rparr>"

definition chunk_packet :: "pylib \<Rightarrow> send_job \<Rightarrow> nat \<Rightarrow> string" where
  "chunk_packet L job i = json_dumps L (data_packet (chunk_fields L job i))"

text \<open>
  The body of the \<^verbatim>\<open>try\<close> of lines 149 to 151: \<^verbatim>\<open>json.loads\<close> may raise
  \<^verbatim>\<open>JSONDecodeError\<close>, and \<^verbatim>\<open>ack.get\<close> raises \<^verbatim>\<open>AttributeError\<close> on a value that is not
  a dict. The \<^verbatim>\<open>except\<close> clause of line 152 catches both; another exception would
  propagate.
\<close>

definition ack_matches :: "pylib \<Rightarrow> string \<Rightarrow> int \<Rightarrow> exn + bool" where
  "ack_matches L cb_content chunk_num =
     (case json_loads L cb_content of
        None \<Rightarrow> Inl JSONDecodeError
      | Some (JObj kvs) \<Rightarrow>
          Inr (py_eq_str (dict_get kvs ''type'') ''ack''
               \<and> py_eq_int (dict_get kvs ''ack_num'') chunk_num)
      | Some _ \<Rightarrow> Inl AttributeError)"

definition check_ack :: "pylib \<Rightarrow> string \<Rightarrow> int \<Rightarrow> exn + bool" where
  "check_ack L cb_content chunk_num =
     (case ack_matches L cb_content chunk_num of
        Inr b \<Rightarrow> Inr b
      | Inl e \<Rightarrow> (if e = JSONDecodeError \<or> e = AttributeError then Inr False else Inl e))"

text \<open>
  The Sender as a machine driven by what it observes. An observation is a pair of a clock
  reading (\<^verbatim>\<open>time.time()\<close>, a real number here) and a clipboard content
  (\<^verbatim>\<open>paste_from_clipboard()\<close>). The control points are:
  \<^item> \<open>Sending\<close>: the top of \<^verbatim>\<open>while not is_acked\<close>; the packet is written and the clock is
    read into \<^verbatim>\<open>start_time\<close>;
  \<^item> \<open>Awaiting start_time\<close>: the test of the inner \<^verbatim>\<open>while\<close> and, if it passes, one poll;
  \<^item> \<open>Done\<close>: after the Finish packet;
  \<^item> \<open>Failed e\<close>: an exception left the function.
\<close>

datatype spc = Sending | Awaiting real | Done | Failed exn

record sender_state =
  chunk_index :: nat
  sender_pc :: spc
  sender_last_cb :: string

text \<open>
  Lines 132, 133 and 157: with no chunk to send the \<^verbatim>\<open>for\<close> loop is skipped and the Finish
  packet is written at once.
\<close>

definition sender_start :: "pylib \<Rightarrow> send_job \<Rightarrow> sender_state \<times> string list" where
  "sender_start L job =
     (if total_chunks_of (base64_string job) = 0
      then (\<lparr>chunk_index = 0, sender_pc = Done, sender_last_cb = []\<rparr>,
            [json_dumps L finish_packet])
      else (\<lparr>chunk_index = 0, sender_pc = Sending, sender_last_cb = []\<rparr>, []))"

text \<open>One pass through a control point; the second component is what was written.\<close>

definition sender_step ::
  "pylib \<Rightarrow> send_job \<Rightarrow> sender_state \<Rightarrow> real \<times> string \<Rightarrow> sender_state \<times> string list" where
  "sender_step L job s obs =
     (case sender_pc s of
        Done \<Rightarrow> (s, [])
      | Failed e \<Rightarrow> (s, [])
      | Sending \<Rightarrow>
          (s\<lparr>sender_pc := Awaiting (fst obs)\<rparr>, [chunk_packet L job (chunk_index s)])
      | Awaiting start_time \<Rightarrow>
          (if \<not> (fst obs - start_time < ACK_TIMEOUT_SECONDS) then (s\<lparr>sender_pc := Sending\<rparr>, [])
           else if snd obs = sender_last_cb s then (s, [])
           else
             (case check_ack L (snd obs) (int (chunk_index s) + 1) of
                Inl e \<Rightarrow> (s\<lparr>sender_last_cb := snd obs, sender_pc := Failed e\<rparr>, [])
              | Inr False \<Rightarrow> (s\<lparr>sender_last_cb := snd obs\<rparr>, [])
              | Inr True \<Rightarrow>
                  (if chunk_index s + 1 < total_chunks_of (base64_string job)
                   then (s\<lparr>sender_last_cb := snd obs, chunk_index := chunk_index s + 1,
                            sender_pc := Sending\<rparr>, [])
                   else (s\<lparr>sender_last_cb := snd obs, chunk_index := chunk_index s + 1,
                            sender_pc := Done\<rparr>,
                         [json_dumps L finish_packet])))))"

fun sender_run ::
  "pylib \<Rightarrow> send_job \<Rightarrow> sender_state \<Rightarrow> (real \<times> string) list \<Rightarrow> sender_state \<times> string list" where
  "sender_run L job s [] = (s, [])"
| "sender_run L job s (obs # rest) =
     (case sender_step L job s obs of
        (s', w) \<Rightarrow> (case sender_run L job s' rest of (s'', w') \<Rightarrow> (s'', w @ w')))"

definition run_send_mode ::
  "pylib \<Rightarrow> byte list \<Rightarrow> string option \<Rightarrow> (real \<times> string) list \<Rightarrow> sender_state \<times> string list" where
  "run_send_mode L binary_data ext observations =
     (let job = prepare_job L binary_data ext in
      case sender_start L job of
        (s0, w0) \<Rightarrow> (case sender_run L job s0 observations of (s, w) \<Rightarrow> (s, w0 @ w)))"

section \<open>Receiver\<close>

text \<open>
  The locals of \<^verbatim>\<open>run_receive_mode\<close> (lines 161 and 162). \<^verbatim>\<open>stored_chunks\<close> is a dict: the
  list of its items in insertion order. \<^verbatim>\<open>total_chunks\<close>, \<^verbatim>\<open>file_hash\<close> and
  \<^verbatim>\<open>archive_type\<close> hold whatever value the packet carried; they start as \<^verbatim>\<open>-1\<close>, \<^verbatim>\<open>None\<close> and
  \<^verbatim>\<open>None\<close>.
\<close>

record rstate =
  stored_chunks :: "(pykey \<times> string) list"
  total_chunks :: json
  file_hash :: json
  archive_type :: json
  last_cb_content :: string

definition initial_rstate :: rstate where
  "initial_rstate =
     \<lparr>stored_chunks = [], total_chunks = JInt (- 1), file_hash = JNull,
      archive_type = JNull, last_cb_content = []\<rparr>"

text \<open>
  How a statement sequence ends: it runs to its end, or leaves through \<^verbatim>\<open>continue\<close>,
  \<^verbatim>\<open>break\<close> or an exception.
\<close>

datatype ctl = Fallthrough | Continue | Break | Raise exn

text \<open>
  Lines 182 to 191, for a payload \<open>p\<close> whose digest matched: latch \<^verbatim>\<open>total_chunks\<close> while it
  is \<^verbatim>\<open>-1\<close>, store the payload unless the key is present, write the ack and remember it as
  the last content seen.
\<close>

definition store_and_ack ::
  "pylib \<Rightarrow> rstate \<Rightarrow> (string \<times> json) list \<Rightarrow> json \<Rightarrow> string \<Rightarrow> rstate \<times> string list \<times> ctl" where
  "store_and_ack L s kvs chunk_num p =
     (case (if py_eq_int (total_chunks s) (- 1)
            then (case dict_item kvs ''total_chunks'' of
                    Inl e \<Rightarrow> Inl e
                  | Inr t \<Rightarrow> Inr (s\<lparr>total_chunks := t\<rparr>))
            else Inr s) of
        Inl e \<Rightarrow> (s, [], Raise e)
      | Inr s2 \<Rightarrow>
          (case py_hashable chunk_num of
             Inl e \<Rightarrow> (s2, [], Raise e)
           | Inr k \<Rightarrow>
               (let s3 = (if k \<notin> set (map fst (stored_chunks s2))
                          then s2\<lparr>stored_chunks := stored_chunks s2 @ [(k, p)]\<rparr>
                          else s2);
                    ack = json_dumps L (ack_packet chunk_num)
                in (s3\<lparr>last_cb_content := ack\<rparr>, [ack], Fallthrough))))"

text \<open>
  Lines 174 to 177, for the items \<open>kvs\<close> of a dict whose \<^verbatim>\<open>type\<close> is \<^verbatim>\<open>data\<close>: while
  \<^verbatim>\<open>file_hash\<close> is \<^verbatim>\<open>None\<close> the two fields are taken from the packet, and a truthy
  \<^verbatim>\<open>file_hash\<close> that cannot be sliced makes the \<^verbatim>\<open>print\<close> raise, after the assignment.
\<close>

definition latch_file_hash :: "rstate \<Rightarrow> (string \<times> json) list \<Rightarrow> rstate \<times> exn option" where
  "latch_file_hash s kvs =
     (if file_hash s = JNull then
        (let s1 = s\<lparr>file_hash := dict_get kvs ''original_file_hash'',
                     archive_type := dict_get kvs ''archive_type''\<rparr>
         in if py_truthy (file_hash s1) \<and> \<not> py_sliceable (file_hash s1)
            then (s1, Some TypeError) else (s1, None))
      else (s, None))"

text \<open>
  Lines 179 to 191. \<^verbatim>\<open>payload.encode\<close> exists for a str only and raises \<^verbatim>\<open>AttributeError\<close>
  on any other value; it is evaluated before \<^verbatim>\<open>packet["hash"]\<close>.
\<close>

definition verify_and_store ::
  "pylib \<Rightarrow> rstate \<Rightarrow> (string \<times> json) list \<Rightarrow> rstate \<times> string list \<times> ctl" where
  "verify_and_store L s kvs =
     (case dict_item kvs ''chunk_num'' of
        Inl e \<Rightarrow> (s, [], Raise e)
      | Inr chunk_num \<Rightarrow>
          (case dict_item kvs ''payload'' of
             Inl e \<Rightarrow> (s, [], Raise e)
           | Inr (JStr p) \<Rightarrow>
               (case dict_item kvs ''hash'' of
                  Inl e \<Rightarrow> (s, [], Raise e)
                | Inr h \<Rightarrow>
                    (if \<not> py_eq_str h (sha256_text L p) then (s, [], Continue)
                     else store_and_ack L s kvs chunk_num p))
           | Inr _ \<Rightarrow> (s, [], Raise AttributeError)))"

definition process_data ::
  "pylib \<Rightarrow> rstate \<Rightarrow> (string \<times> json) list \<Rightarrow> rstate \<times> string list \<times> ctl" where
  "process_data L s kvs =
     (case latch_file_hash s kvs of
        (s1, Some e) \<Rightarrow> (s1, [], Raise e)
      | (s1, None) \<Rightarrow> verify_and_store L s1 kvs)"

text \<open>
  The body of the inner \<^verbatim>\<open>try\<close> (lines 171 to 191). \<^verbatim>\<open>packet.get\<close> exists for a dict only:
  on a loaded list, str, int, bool or \<^verbatim>\<open>None\<close> it raises \<^verbatim>\<open>AttributeError\<close>.
\<close>

definition try_body :: "pylib \<Rightarrow> rstate \<Rightarrow> string \<Rightarrow> rstate \<times> string list \<times> ctl" where
  "try_body L s cb_content =
     (case json_loads L cb_content of
        None \<Rightarrow> (s, [], Raise JSONDecodeError)
      | Some (JObj kvs) \<Rightarrow>
          (if py_eq_str (dict_get kvs ''type'') ''finish'' then (s, [], Break)
           else if \<not> py_eq_str (dict_get kvs ''type'') ''data'' then (s, [], Continue)
           else process_data L s kvs)
      | Some _ \<Rightarrow> (s, [], Raise AttributeError))"

text \<open>
  The \<^verbatim>\<open>try\<close> with its clause
  \<^verbatim>\<open>except (json.JSONDecodeError, KeyError, TypeError): pass\<close> (line 192). Any other
  exception propagates.
\<close>

definition handle_content :: "pylib \<Rightarrow> rstate \<Rightarrow> string \<Rightarrow> rstate \<times> string list \<times> ctl" where
  "handle_content L s cb_content =
     (case try_body L s cb_content of
        (s', w, Raise e) \<Rightarrow>
          (if e = JSONDecodeError \<or> e = KeyError \<or> e = TypeError then (s', w, Fallthrough)
           else (s', w, Raise e))
      | (s', w, c) \<Rightarrow> (s', w, c))"

text \<open>
  One iteration of \<^verbatim>\<open>while True\<close> (lines 166 to 194) on the clipboard content \<open>cb_content\<close>.
  The outer \<^verbatim>\<open>try\<close> catches \<^verbatim>\<open>KeyboardInterrupt\<close> only, which is not modelled: an exception
  that leaves the inner \<^verbatim>\<open>try\<close> ends the Receiver.
\<close>

datatype status = Polling | Finished | Completed | Crashed exn

definition completion_check :: "rstate \<Rightarrow> bool" where
  "completion_check s =
     (\<not> py_eq_int (total_chunks s) (- 1)
      \<and> py_eq_int (total_chunks s) (int (length (stored_chunks s))))"

definition receive_tick :: "pylib \<Rightarrow> rstate \<Rightarrow> string \<Rightarrow> rstate \<times> string list \<times> status" where
  "receive_tick L s cb_content =
     (if cb_content = last_cb_content s \<or> cb_content = [] then (s, [], Polling)
      else
        (case handle_content L (s\<lparr>last_cb_content := cb_content\<rparr>) cb_content of
           (s', w, Break) \<Rightarrow> (s', w, Finished)
         | (s', w, Continue) \<Rightarrow> (s', w, Polling)
         | (s', w, Raise e) \<Rightarrow> (s', w, Crashed e)
         | (s', w, Fallthrough) \<Rightarrow>
             (if completion_check s' then (s', w, Completed) else (s', w, Polling))))"

text \<open>The loop over the successive clipboard contents, until it is left.\<close>

fun receive_loop :: "pylib \<Rightarrow> rstate \<Rightarrow> string list \<Rightarrow> rstate \<times> string list \<times> status" where
  "receive_loop L s [] = (s, [], Polling)"
| "receive_loop L s (cb_content # rest) =
     (case receive_tick L s cb_content of
        (s', w, Polling) \<Rightarrow>
          (case receive_loop L s' rest of (s'', w', st) \<Rightarrow> (s'', w @ w', st))
      | (s', w, st) \<Rightarrow> (s', w, st))"

subsection \<open>After the loop\<close>

text \<open>
  \<^verbatim>\<open>sorted(stored_chunks.keys())\<close>: ints are ordered as numbers and strs by code points;
  comparing keys of two kinds raises \<^verbatim>\<open>TypeError\<close>. A single key is never compared.
\<close>

fun is_KInt :: "pykey \<Rightarrow> bool" where
  "is_KInt (KInt n) = True"
| "is_KInt _ = False"

fun is_KStr :: "pykey \<Rightarrow> bool" where
  "is_KStr (KStr s) = True"
| "is_KStr _ = False"

fun key_int :: "pykey \<Rightarrow> int" where
  "key_int (KInt n) = n"
| "key_int _ = 0"

fun key_str :: "pykey \<Rightarrow> string" where
  "key_str (KStr s) = s"
| "key_str _ = []"

definition sorted_keys :: "pykey list \<Rightarrow> exn + pykey list" where
  "sorted_keys ks =
     (if length ks \<le> 1 then Inr ks
      else if list_all is_KInt ks then Inr (map KInt (sort (map key_int ks)))
      else if list_all is_KStr ks then Inr (map KStr (sort (map key_str ks)))
      else Inl TypeError)"

text \<open>
  Lines 200 to 202. \<^verbatim>\<open>final_path.endswith(archive_type)\<close> raises \<^verbatim>\<open>TypeError\<close> when the
  latched \<^verbatim>\<open>archive_type\<close> is not a str.
\<close>

definition final_path_of :: "string \<Rightarrow> json \<Rightarrow> exn + string" where
  "final_path_of output_filename a =
     (if py_truthy a then
        (case a of
           JStr ext \<Rightarrow>
             Inr (if \<not> py_endswith output_filename ext then output_filename @ ext
                  else output_filename)
         | _ \<Rightarrow> Inl TypeError)
      else Inr output_filename)"

text \<open>
  What \<^verbatim>\<open>run_receive_mode\<close> does after its loop. \<open>Saved path data v\<close> is the only outcome
  in which a file was written: \<open>data\<close> at \<open>path\<close>, with the result \<open>v\<close> of the final
  hash comparison. \<open>Aborted e\<close> is an exception that left the function.
\<close>

datatype verdict = Unverified | Verified | Mismatched

datatype outcome =
  Incomplete nat json
  | SaveFailed
  | Saved string "byte list" verdict
  | Aborted exn

fun file_written :: "outcome \<Rightarrow> (string \<times> byte list) option" where
  "file_written (Saved path data v) = Some (path, data)"
| "file_written _ = None"

text \<open>
  Lines 197 to 221. \<open>can_write\<close> says whether opening and writing the destination
  succeeds; the file read back for the hash is the data just written.
\<close>

definition finalize :: "pylib \<Rightarrow> string \<Rightarrow> bool \<Rightarrow> rstate \<Rightarrow> outcome" where
  "finalize L output_filename can_write s =
     (if stored_chunks s = []
         \<or> \<not> py_eq_int (total_chunks s) (int (length (stored_chunks s)))
      then Incomplete (length (stored_chunks s)) (total_chunks s)
      else
        (case final_path_of output_filename (archive_type s) of
           Inl e \<Rightarrow> Aborted e
         | Inr final_path \<Rightarrow>
             (case sorted_keys (map fst (stored_chunks s)) of
                Inl e \<Rightarrow> Aborted e
              | Inr ks \<Rightarrow>
                  (case b64decode
                          (concat (map (\<lambda>k. case map_of (stored_chunks s) k of
                                               Some p \<Rightarrow> p | None \<Rightarrow> []) ks)) of
                     Inl e \<Rightarrow> SaveFailed
                   | Inr binary_data \<Rightarrow>
                       (if \<not> can_write then SaveFailed
                        else Saved final_path binary_data
                               (if \<not> py_truthy (file_hash s) then Unverified
                                else if py_eq_str (file_hash s) (sha256_bytes L binary_data)
                                then Verified else Mismatched))))))"

text \<open>
  The whole of \<^verbatim>\<open>run_receive_mode\<close> on a sequence of clipboard contents: \<open>None\<close> while the
  loop is still polling at the end of the sequence, otherwise what was written to the
  clipboard and the outcome.
\<close>

definition run_receive_mode ::
  "pylib \<Rightarrow> string \<Rightarrow> bool \<Rightarrow> string list \<Rightarrow> (string list \<times> outcome) option" where
  "run_receive_mode L output_filename can_write reads =
     (case receive_loop L initial_rstate reads of
        (s, w, Polling) \<Rightarrow> None
      | (s, w, Crashed e) \<Rightarrow> Some (w, Aborted e)
      | (s, w, st) \<Rightarrow> Some (w, finalize L output_filename can_write s))"

section \<open>Predicates used in the statements\<close>

text \<open>
  The digest test of line 180 as a predicate on the items of a loaded dict: the \<^verbatim>\<open>payload\<close>
  is a str, the \<^verbatim>\<open>hash\<close> field is present, and the two sides of \<^verbatim>\<open>!=\<close> are equal.
\<close>

definition digest_matches :: "pylib \<Rightarrow> (string \<times> json) list \<Rightarrow> bool" where
  "digest_matches L kvs =
     (case (map_of kvs ''payload'', map_of kvs ''hash'') of
        (Some (JStr p), Some (JStr h)) \<Rightarrow> h = sha256_text L p
      | _ \<Rightarrow> False)"

text \<open>The number of items of \<^verbatim>\<open>stored_chunks\<close> under the key \<open>k\<close>.\<close>

definition entries_for :: "pykey \<Rightarrow> rstate \<Rightarrow> nat" where
  "entries_for k s = length (filter (\<lambda>kv. fst kv = k) (stored_chunks s))"

text \<open>
  \<open>is_ack_for L c n\<close>: the content \<open>c\<close> loads as a dict whose \<^verbatim>\<open>type\<close> is \<^verbatim>\<open>ack\<close> and whose
  \<^verbatim>\<open>ack_num\<close> equals \<open>n\<close> under Python's \<^verbatim>\<open>==\<close>.
\<close>

definition is_ack_for :: "pylib \<Rightarrow> string \<Rightarrow> int \<Rightarrow> bool" where
  "is_ack_for L c n =
     (case json_loads L c of
        Some (JObj kvs) \<Rightarrow>
          py_eq_str (dict_get kvs ''type'') ''ack'' \<and> py_eq_int (dict_get kvs ''ack_num'') n
      | _ \<Rightarrow> False)"

text \<open>
  Two relations between the Receiver's state before and after a step, used in the proofs:
  \<^verbatim>\<open>stored_chunks\<close> is unchanged or has one new key at its end; and nothing of
  \<^verbatim>\<open>stored_chunks\<close> and \<^verbatim>\<open>total_chunks\<close> changed and nothing was written.
\<close>

definition same_or_appended :: "rstate \<Rightarrow> rstate \<Rightarrow> bool" where
  "same_or_appended s s' =
     (stored_chunks s' = stored_chunks s
      \<or> (\<exists>k p. k \<notin> set (map fst (stored_chunks s)) \<and> stored_chunks s' = stored_chunks s @ [(k, p)]))"

definition quiet :: "rstate \<Rightarrow> rstate \<Rightarrow> string list \<Rightarrow> bool" where
  "quiet s s' w = (stored_chunks s' = stored_chunks s \<and> total_chunks s' = total_chunks s \<and> w = [])"

section \<open>A small library instance for closed examples\<close>

text \<open>
  The examples below need concrete library functions. \<open>demo_lib\<close> knows the JSON texts of
  a few packets, and its digest is a stand-in (it is not SHA-256): the theorems hold for
  every library, the examples run one.
\<close>

definition demo_sha :: "string \<Rightarrow> string" where
  "demo_sha s = ''#'' @ s"

definition demo_data :: data_fields where
  "demo_data =
     \<lparr>d_chunk_num = 1, d_total_chunks = 2, d_original_file_hash = ''#ABC'',
      d_archive_type = None, d_hash = ''#QUJD'', d_payload = ''QUJD''\<rparr>"

definition finish_text :: string where
  \<open>finish_text = ''{"type": "finish"}''\<close>

definition ack1_text :: string where
  \<open>ack1_text = ''{"type": "ack", "ack_num": 1}''\<close>

definition data1_text :: string where
  \<open>data1_text = ''{"type": "data", "chunk_num": 1, "total_chunks": 2, "original_file_hash": "#ABC", "archive_type": null, "hash": "#QUJD", "payload": "QUJD"}''\<close>

definition corrupt1_text :: string where
  \<open>corrupt1_text = ''{"type": "data", "chunk_num": 1, "total_chunks": 2, "original_file_hash": "#ABC", "archive_type": null, "hash": "#QUJD", "payload": "QUJE"}''\<close>

definition single_text :: string where
  \<open>single_text = ''{"type": "data", "chunk_num": 1, "total_chunks": 1, "original_file_hash": "#ABC", "archive_type": null, "hash": "#QUJD", "payload": "QUJD"}''\<close>

definition truncated_text :: string where
  \<open>truncated_text = ''{"type": "data", "original_file_hash": "#ABC"}''\<close>

definition demo_table :: "(string \<times> json) list" where
  "demo_table =
     [(finish_text, finish_packet),
      (ack1_text, ack_packet (JInt 1)),
      (data1_text, data_packet demo_data),
      (corrupt1_text, data_packet (demo_data\<lparr>d_payload := ''QUJE''\<rparr>)),
      (single_text, data_packet (demo_data\<lparr>d_total_chunks := 1\<rparr>)),
      (truncated_text, JObj [(''type'', JStr ''data''), (''original_file_hash'', JStr ''#ABC'')]),
      (''5'', JInt 5)]"

definition demo_job_rec :: send_job where
  "demo_job_rec = \<lparr>base64_string = ''QUJD'', sent_file_hash = ''#ABC'', sent_archive_type = None\<rparr>"

definition demo_lib :: pylib where
  "demo_lib =
     \<lparr>json_loads = map_of demo_table,
      json_dumps = (\<lambda>j. case find (\<lambda>e. snd e = j) demo_table of
                           Some e \<Rightarrow> fst e | None \<Rightarrow> ''null''),
      sha256_text = demo_sha,
      sha256_bytes = (\<lambda>b. demo_sha (map (\<lambda>w. char_of (unat w)) b))\<rparr>"

section \<open>Properties of the chunking\<close>

lemma CHUNK_SIZE_pos: "0 < CHUNK_SIZE"
  by (simp add: CHUNK_SIZE_def)

lemma ceil_div_int:
  assumes "0 < c"
  shows "\<lceil>real n / real c\<rceil> = int ((n + c - 1) div c)"
proof -
  define q where "q = (n + c - 1) div c"
  have "q * c \<le> n + c - 1"
    unfolding q_def by simp
  with assms have up: "q * c < n + c" by arith
  have "n + c - 1 < c + q * c"
    unfolding q_def using assms by (rule dividend_less_div_times)
  with assms have lo: "n \<le> q * c" by arith
  from lo have "real n \<le> real (q * c)" by (rule of_nat_mono)
  with assms have le: "real n / real c \<le> real q"
    by (simp add: divide_le_eq)
  from up have "real (q * c) < real (n + c)" using of_nat_less_iff by blast
  with assms have gt: "real q - 1 < real n / real c"
    by (simp add: less_divide_eq algebra_simps)
  have "\<lceil>real n / real c\<rceil> = int q"
    using le gt by (intro ceiling_unique) simp_all
  then show ?thesis by (simp add: q_def)
qed

lemma total_chunks_of_div:
  "total_chunks_of s = (length s + CHUNK_SIZE - 1) div CHUNK_SIZE"
  by (simp add: total_chunks_of_def ceil_div_int [OF CHUNK_SIZE_pos])

lemma total_chunks_of_covers: "length s \<le> total_chunks_of s * CHUNK_SIZE"
proof -
  have "length s + CHUNK_SIZE - 1 < CHUNK_SIZE + total_chunks_of s * CHUNK_SIZE"
    unfolding total_chunks_of_div using CHUNK_SIZE_pos by (rule dividend_less_div_times)
  then show ?thesis using CHUNK_SIZE_pos by arith
qed

lemma total_chunks_of_tight:
  assumes "i < total_chunks_of s"
  shows "i * CHUNK_SIZE < length s"
proof -
  from assms have "Suc i \<le> (length s + CHUNK_SIZE - 1) div CHUNK_SIZE"
    by (simp add: total_chunks_of_div)
  then have "Suc i * CHUNK_SIZE \<le> length s + CHUNK_SIZE - 1"
    using CHUNK_SIZE_pos by (simp add: less_eq_div_iff_mult_less_eq)
  then show ?thesis using CHUNK_SIZE_pos by simp
qed

lemma concat_slices:
  "concat (map (\<lambda>i. py_slice s (i * c) ((i + 1) * c)) [0..<n]) = take (n * c) s"
proof (induction n)
  case 0
  show ?case by simp
next
  case (Suc n)
  have "take (n * c) s = take (n * c) (take (c + n * c) s)"
    by (simp add: min_def)
  then have "take (n * c) s @ drop (n * c) (take (c + n * c) s) = take (c + n * c) s"
    by (metis append_take_drop_id)
  then show ?case
    using Suc by (simp add: py_slice_def)
qed

lemma concat_sender_chunks: "concat (sender_chunks s) = s"
proof -
  have "concat (sender_chunks s) = take (total_chunks_of s * CHUNK_SIZE) s"
    unfolding sender_chunks_def chunk_payload_def by (rule concat_slices)
  then show ?thesis using total_chunks_of_covers [of s] by simp
qed

lemma length_chunk_payload:
  "length (chunk_payload s i) = min ((i + 1) * CHUNK_SIZE) (length s) - i * CHUNK_SIZE"
  by (simp add: chunk_payload_def py_slice_def min.commute)

lemma length_chunk_payload_full:
  assumes "i + 1 < total_chunks_of s"
  shows "length (chunk_payload s i) = CHUNK_SIZE"
proof -
  from assms have "(i + 1) * CHUNK_SIZE < length s" by (rule total_chunks_of_tight)
  then show ?thesis by (simp add: length_chunk_payload)
qed

lemma length_chunk_payload_bounds:
  assumes "i < total_chunks_of s"
  shows "0 < length (chunk_payload s i) \<and> length (chunk_payload s i) \<le> CHUNK_SIZE"
proof -
  from assms have "i * CHUNK_SIZE < length s" by (rule total_chunks_of_tight)
  then show ?thesis using CHUNK_SIZE_pos by (simp add: length_chunk_payload)
qed

text \<open>
  Claim C7. For every encoded string \<open>S\<close> the Sender makes
  \<open>total_chunks = ceil (len S / CHUNK_SIZE)\<close> payloads; the payload of every chunk but the
  last has exactly \<open>CHUNK_SIZE\<close> characters, the last one is not empty and not longer; and
  the payloads, concatenated in ascending chunk order, are \<open>S\<close> again.
\<close>

theorem sender_chunking_reconstructs:
  "total_chunks_of S = (length S + CHUNK_SIZE - 1) div CHUNK_SIZE
   \<and> length (sender_chunks S) = total_chunks_of S
   \<and> (\<forall>i < total_chunks_of S.
         sender_chunks S ! i = chunk_payload S i
         \<and> 0 < length (chunk_payload S i) \<and> length (chunk_payload S i) \<le> CHUNK_SIZE
         \<and> (i + 1 < total_chunks_of S \<longrightarrow> length (chunk_payload S i) = CHUNK_SIZE))
   \<and> concat (sender_chunks S) = S"
proof -
  have "\<forall>i < total_chunks_of S.
         sender_chunks S ! i = chunk_payload S i
         \<and> 0 < length (chunk_payload S i) \<and> length (chunk_payload S i) \<le> CHUNK_SIZE
         \<and> (i + 1 < total_chunks_of S \<longrightarrow> length (chunk_payload S i) = CHUNK_SIZE)"
    using length_chunk_payload_bounds length_chunk_payload_full
    by (simp add: sender_chunks_def)
  moreover have "length (sender_chunks S) = total_chunks_of S"
    by (simp add: sender_chunks_def)
  ultimately show ?thesis
    using total_chunks_of_div concat_sender_chunks by blast
qed

theorem sender_chunking_reconstructs_witness:
  "total_chunks_of (replicate 245765 (CHR ''A'')) = 3
   \<and> length (chunk_payload (replicate 245765 (CHR ''A'')) 0) = CHUNK_SIZE
   \<and> length (chunk_payload (replicate 245765 (CHR ''A'')) 1) = CHUNK_SIZE
   \<and> 0 < length (chunk_payload (replicate 245765 (CHR ''A'')) 2)
   \<and> concat (sender_chunks (replicate 245765 (CHR ''A''))) = replicate 245765 (CHR ''A'')"
proof -
  have t: "total_chunks_of (replicate 245765 (CHR ''A'')) = 3"
    by (simp add: total_chunks_of_def CHUNK_SIZE_def)
  show ?thesis
    using sender_chunking_reconstructs [of "replicate 245765 (CHR ''A'')"]
    unfolding t by simp
qed

section \<open>Receiver: the effect of one step\<close>


lemma py_hashable_Inl: "py_hashable cn = Inl e \<Longrightarrow> e = TypeError"
  by (cases cn) auto

lemma latch_file_hash_frame:
  "latch_file_hash s kvs = (s1, r) \<Longrightarrow>
     stored_chunks s1 = stored_chunks s \<and> total_chunks s1 = total_chunks s
     \<and> last_cb_content s1 = last_cb_content s"
  by (auto simp: latch_file_hash_def Let_def split: if_splits)

lemma latch_file_hash_exn:
  "latch_file_hash s kvs = (s1, Some e) \<Longrightarrow> e = TypeError"
  by (auto simp: latch_file_hash_def Let_def split: if_splits)

lemma store_and_ack_known:
  assumes "\<not> py_eq_int (total_chunks s) (- 1) \<or> map_of kvs ''total_chunks'' \<noteq> None"
    and "py_hashable cn = Inr k"
  shows "\<exists>s'. store_and_ack L s kvs cn p = (s', [json_dumps L (ack_packet cn)], Fallthrough)
           \<and> last_cb_content s' = json_dumps L (ack_packet cn)
           \<and> stored_chunks s' =
                (if k \<in> set (map fst (stored_chunks s)) then stored_chunks s
                 else stored_chunks s @ [(k, p)])
           \<and> total_chunks s' =
                (if py_eq_int (total_chunks s) (- 1) then dict_get kvs ''total_chunks''
                 else total_chunks s)
           \<and> file_hash s' = file_hash s \<and> archive_type s' = archive_type s"
  using assms
  by (cases "k \<in> set (map fst (stored_chunks s))"; cases "py_eq_int (total_chunks s) (- 1)")
     (auto simp: store_and_ack_def dict_item_def dict_get_def Let_def simp del: set_map)

lemma store_and_ack_result:
  assumes "store_and_ack L s kvs cn p = (s', w, c)"
  shows "(c = Raise KeyError \<and> s' = s \<and> w = [])
       \<or> (c = Raise TypeError \<and> w = [] \<and> stored_chunks s' = stored_chunks s
            \<and> last_cb_content s' = last_cb_content s)
       \<or> (c = Fallthrough \<and> w = [json_dumps L (ack_packet cn)]
            \<and> last_cb_content s' = json_dumps L (ack_packet cn)
            \<and> (\<exists>k. py_hashable cn = Inr k
                 \<and> stored_chunks s' =
                     (if k \<in> set (map fst (stored_chunks s)) then stored_chunks s
                      else stored_chunks s @ [(k, p)])))"
proof (cases "\<not> py_eq_int (total_chunks s) (- 1) \<or> map_of kvs ''total_chunks'' \<noteq> None")
  case False
  with assms show ?thesis
    by (auto simp: store_and_ack_def dict_item_def)
next
  case known: True
  show ?thesis
  proof (cases "py_hashable cn")
    case (Inl e)
    then have "e = TypeError" by (rule py_hashable_Inl)
    with Inl known assms show ?thesis
      by (cases "py_eq_int (total_chunks s) (- 1)") (auto simp: store_and_ack_def dict_item_def)
  next
    case (Inr k)
    from store_and_ack_known [OF known Inr, of L p] assms Inr show ?thesis
      by auto
  qed
qed

lemma verify_and_store_result:
  assumes "verify_and_store L s kvs = (s', w, c)"
  shows "(s' = s \<and> w = [] \<and> (c = Raise KeyError \<or> c = Raise AttributeError \<or> c = Continue))
       \<or> (\<exists>cn p. map_of kvs ''chunk_num'' = Some cn \<and> map_of kvs ''payload'' = Some (JStr p)
             \<and> digest_matches L kvs \<and> store_and_ack L s kvs cn p = (s', w, c))"
proof (cases "map_of kvs ''chunk_num''")
  case None
  with assms show ?thesis by (auto simp: verify_and_store_def dict_item_def)
next
  case cn: (Some cn)
  show ?thesis
  proof (cases "map_of kvs ''payload''")
    case None
    with cn assms show ?thesis by (auto simp: verify_and_store_def dict_item_def)
  next
    case pl: (Some pl)
    show ?thesis
    proof (cases "\<exists>p. pl = JStr p")
      case False
      with cn pl assms show ?thesis
        by (cases pl) (auto simp: verify_and_store_def dict_item_def)
    next
      case True
      then obtain p where p: "pl = JStr p" by blast
      show ?thesis
      proof (cases "map_of kvs ''hash''")
        case None
        with cn pl p assms show ?thesis by (auto simp: verify_and_store_def dict_item_def)
      next
        case h: (Some h)
        show ?thesis
        proof (cases "py_eq_str h (sha256_text L p)")
          case False
          with cn pl p h assms show ?thesis by (auto simp: verify_and_store_def dict_item_def)
        next
          case True
          then have "h = JStr (sha256_text L p)" by (cases h) auto
          with h pl p have "digest_matches L kvs" by (simp add: digest_matches_def)
          with True cn pl p h assms show ?thesis
            by (auto simp: verify_and_store_def dict_item_def)
        qed
      qed
    qed
  qed
qed

lemma verify_and_store_mismatch:
  assumes "\<not> digest_matches L kvs" and "verify_and_store L s kvs = (s', w, c)"
  shows "s' = s \<and> w = [] \<and> (c = Raise KeyError \<or> c = Raise AttributeError \<or> c = Continue)"
  using verify_and_store_result [OF assms(2)] assms(1) by blast

lemma process_data_result:
  assumes "process_data L s kvs = (s', w, c)"
  shows "\<exists>s1 r. latch_file_hash s kvs = (s1, r)
           \<and> ((r = Some TypeError \<and> s' = s1 \<and> w = [] \<and> c = Raise TypeError)
              \<or> (r = None \<and> verify_and_store L s1 kvs = (s', w, c)))"
proof (cases "latch_file_hash s kvs")
  case (Pair s1 r)
  show ?thesis
  proof (cases r)
    case None
    with Pair assms show ?thesis by (simp add: process_data_def)
  next
    case (Some e)
    with Pair have "e = TypeError" by (auto dest: latch_file_hash_exn)
    with Some Pair assms show ?thesis by (auto simp: process_data_def)
  qed
qed

lemma try_body_result:
  assumes "try_body L s cb = (s', w, c)"
  shows "(json_loads L cb = None \<and> c = Raise JSONDecodeError \<and> s' = s \<and> w = [])
       \<or> (\<exists>v. json_loads L cb = Some v \<and> (\<forall>kvs. v \<noteq> JObj kvs)
              \<and> c = Raise AttributeError \<and> s' = s \<and> w = [])
       \<or> (\<exists>kvs. json_loads L cb = Some (JObj kvs)
              \<and> ((py_eq_str (dict_get kvs ''type'') ''finish'' \<and> c = Break \<and> s' = s \<and> w = [])
                 \<or> (\<not> py_eq_str (dict_get kvs ''type'') ''finish''
                      \<and> \<not> py_eq_str (dict_get kvs ''type'') ''data''
                      \<and> c = Continue \<and> s' = s \<and> w = [])
                 \<or> (\<not> py_eq_str (dict_get kvs ''type'') ''finish''
                      \<and> py_eq_str (dict_get kvs ''type'') ''data''
                      \<and> process_data L s kvs = (s', w, c))))"
proof (cases "json_loads L cb")
  case None
  with assms show ?thesis by (auto simp: try_body_def)
next
  case (Some v)
  with assms show ?thesis
    by (cases v) (auto simp: try_body_def split: if_splits)
qed


lemma process_data_effect:
  assumes "process_data L s kvs = (s', w, c)"
  shows "same_or_appended s s'
       \<and> (c = Fallthrough \<or> c = Continue \<or> c = Raise KeyError \<or> c = Raise TypeError
            \<or> c = Raise AttributeError)
       \<and> (c = Continue \<or> c = Raise AttributeError \<longrightarrow> quiet s s' w)"
proof -
  from process_data_result [OF assms] obtain s1 r where
    latch: "latch_file_hash s kvs = (s1, r)" and
    alt: "(r = Some TypeError \<and> s' = s1 \<and> w = [] \<and> c = Raise TypeError)
          \<or> (r = None \<and> verify_and_store L s1 kvs = (s', w, c))"
    by blast
  from latch have fr: "stored_chunks s1 = stored_chunks s" "total_chunks s1 = total_chunks s"
    by (auto dest: latch_file_hash_frame)
  from alt show ?thesis
  proof
    assume "r = Some TypeError \<and> s' = s1 \<and> w = [] \<and> c = Raise TypeError"
    with fr show ?thesis by (simp add: same_or_appended_def quiet_def)
  next
    assume "r = None \<and> verify_and_store L s1 kvs = (s', w, c)"
    then have v: "verify_and_store L s1 kvs = (s', w, c)" by simp
    from verify_and_store_result [OF v] show ?thesis
    proof
      assume "s' = s1 \<and> w = [] \<and> (c = Raise KeyError \<or> c = Raise AttributeError \<or> c = Continue)"
      with fr show ?thesis by (auto simp: same_or_appended_def quiet_def)
    next
      assume "\<exists>cn p. map_of kvs ''chunk_num'' = Some cn \<and> map_of kvs ''payload'' = Some (JStr p)
             \<and> digest_matches L kvs \<and> store_and_ack L s1 kvs cn p = (s', w, c)"
      then obtain cn p where sa: "store_and_ack L s1 kvs cn p = (s', w, c)" by blast
      from store_and_ack_result [OF sa] fr show ?thesis
        by (auto simp: same_or_appended_def quiet_def split: if_splits)
    qed
  qed
qed

lemma try_body_effect:
  assumes "try_body L s cb = (s', w, c)"
  shows "same_or_appended s s'
       \<and> (c = Fallthrough \<or> c = Continue \<or> c = Break \<or> c = Raise JSONDecodeError
            \<or> c = Raise KeyError \<or> c = Raise TypeError \<or> c = Raise AttributeError)
       \<and> (c = Continue \<or> c = Break \<or> c = Raise AttributeError \<or> c = Raise JSONDecodeError
            \<longrightarrow> quiet s s' w)"
proof -
  have refl: "same_or_appended s s" "quiet s s []"
    by (simp_all add: same_or_appended_def quiet_def)
  from try_body_result [OF assms] consider
      "c = Raise JSONDecodeError \<and> s' = s \<and> w = []"
    | "c = Raise AttributeError \<and> s' = s \<and> w = []"
    | "c = Break \<and> s' = s \<and> w = []"
    | "c = Continue \<and> s' = s \<and> w = []"
    | kvs where "process_data L s kvs = (s', w, c)"
    by blast
  then show ?thesis
  proof cases
    case 5
    from process_data_effect [OF 5] show ?thesis by blast
  qed (use refl in simp_all)
qed

lemma handle_content_effect:
  assumes "handle_content L s cb = (s', w, c)"
  shows "same_or_appended s s'
       \<and> (c = Fallthrough \<or> c = Continue \<or> c = Break \<or> c = Raise AttributeError)
       \<and> (c \<noteq> Fallthrough \<longrightarrow> quiet s s' w)"
proof (cases "try_body L s cb")
  case (fields s1 w1 c1)
  from try_body_effect [OF fields] fields assms show ?thesis
    by (cases c1) (auto simp: handle_content_def split: if_splits)
qed

lemma same_or_appended_distinct:
  "same_or_appended s s' \<Longrightarrow> distinct (map fst (stored_chunks s))
     \<Longrightarrow> distinct (map fst (stored_chunks s'))"
  by (auto simp: same_or_appended_def)

lemma quiet_completion:
  "quiet s s' w \<Longrightarrow> completion_check s' = completion_check s"
  by (simp add: quiet_def completion_check_def)

lemma receive_tick_distinct:
  assumes "receive_tick L s cb = (s', w, st)" and "distinct (map fst (stored_chunks s))"
  shows "distinct (map fst (stored_chunks s'))"
proof (cases "cb = last_cb_content s \<or> cb = []")
  case True
  with assms show ?thesis by (simp add: receive_tick_def)
next
  case False
  obtain s1 w1 c1 where h: "handle_content L (s\<lparr>last_cb_content := cb\<rparr>) cb = (s1, w1, c1)"
    by (cases "handle_content L (s\<lparr>last_cb_content := cb\<rparr>) cb") auto
  from handle_content_effect [OF h] assms(2) have "distinct (map fst (stored_chunks s1))"
    by (auto dest: same_or_appended_distinct)
  moreover from False h assms(1) have "s' = s1"
    by (cases c1) (auto simp: receive_tick_def split: if_splits)
  ultimately show ?thesis by simp
qed

lemma receive_tick_completion:
  assumes "receive_tick L s cb = (s', w, st)" and "\<not> completion_check s"
  shows "(st = Completed) = completion_check s'"
proof (cases "cb = last_cb_content s \<or> cb = []")
  case True
  with assms show ?thesis by (auto simp: receive_tick_def)
next
  case False
  obtain s1 w1 c1 where h: "handle_content L (s\<lparr>last_cb_content := cb\<rparr>) cb = (s1, w1, c1)"
    by (cases "handle_content L (s\<lparr>last_cb_content := cb\<rparr>) cb") auto
  from handle_content_effect [OF h]
  have q: "c1 \<noteq> Fallthrough \<longrightarrow> completion_check s1 = completion_check s"
    by (auto simp: quiet_def completion_check_def)
  from False h assms q show ?thesis
    by (cases c1) (auto simp: receive_tick_def split: if_splits)
qed

section \<open>Receiver: invariants of the loop\<close>

lemma receive_loop_invariant:
  assumes "receive_loop L s reads = (s', w, st)"
    and "distinct (map fst (stored_chunks s))" and "\<not> completion_check s"
  shows "distinct (map fst (stored_chunks s')) \<and> (st = Completed) = completion_check s'"
  using assms
proof (induction reads arbitrary: s s' w st)
  case Nil
  then show ?case by auto
next
  case (Cons cb reads)
  obtain s1 w1 st1 where t: "receive_tick L s cb = (s1, w1, st1)"
    by (cases "receive_tick L s cb") auto
  from receive_tick_distinct [OF t Cons.prems(2)]
  have d1: "distinct (map fst (stored_chunks s1))" .
  from receive_tick_completion [OF t Cons.prems(3)]
  have c1: "(st1 = Completed) = completion_check s1" .
  show ?case
  proof (cases "st1 = Polling")
    case False
    with t Cons.prems(1) have "s' = s1" "st = st1"
      by (cases st1; simp)+
    with d1 c1 show ?thesis by simp
  next
    case True
    with c1 have nc: "\<not> completion_check s1" by simp
    obtain s2 w2 st2 where l: "receive_loop L s1 reads = (s2, w2, st2)"
      by (cases "receive_loop L s1 reads") auto
    with t True Cons.prems(1) have "s' = s2" "st = st2" by simp_all
    with Cons.IH [OF l d1 nc] show ?thesis by simp
  qed
qed

lemma initial_rstate_invariant:
  "distinct (map fst (stored_chunks initial_rstate)) \<and> \<not> completion_check initial_rstate"
  by (simp add: initial_rstate_def completion_check_def)

section \<open>Evaluating the demo library\<close>

lemma demo_loads:
  "json_loads demo_lib finish_text = Some finish_packet"
  "json_loads demo_lib ack1_text = Some (ack_packet (JInt 1))"
  "json_loads demo_lib data1_text = Some (data_packet demo_data)"
  "json_loads demo_lib corrupt1_text = Some (data_packet (demo_data\<lparr>d_payload := ''QUJE''\<rparr>))"
  "json_loads demo_lib single_text = Some (data_packet (demo_data\<lparr>d_total_chunks := 1\<rparr>))"
  "json_loads demo_lib ''5'' = Some (JInt 5)"
  by (simp_all add: demo_lib_def demo_table_def finish_text_def ack1_text_def data1_text_def
        corrupt1_text_def single_text_def truncated_text_def)

lemma demo_dumps:
  "json_dumps demo_lib finish_packet = finish_text"
  "json_dumps demo_lib (ack_packet (JInt 1)) = ack1_text"
  by (simp_all add: demo_lib_def demo_table_def finish_packet_def ack_packet_def data_packet_def
        packet_items_def)

lemma demo_texts_nonempty:
  "finish_text \<noteq> []" "ack1_text \<noteq> []" "data1_text \<noteq> []" "corrupt1_text \<noteq> []"
  "single_text \<noteq> []" "truncated_text \<noteq> []"
  by (simp_all add: finish_text_def ack1_text_def data1_text_def corrupt1_text_def
        single_text_def truncated_text_def)

lemma demo_texts_pairwise:
  "finish_text \<noteq> ack1_text" "finish_text \<noteq> data1_text" "finish_text \<noteq> corrupt1_text"
  "finish_text \<noteq> single_text" "finish_text \<noteq> truncated_text" "ack1_text \<noteq> finish_text"
  "ack1_text \<noteq> data1_text" "ack1_text \<noteq> corrupt1_text" "ack1_text \<noteq> single_text"
  "ack1_text \<noteq> truncated_text" "data1_text \<noteq> finish_text" "data1_text \<noteq> ack1_text"
  "data1_text \<noteq> corrupt1_text" "data1_text \<noteq> single_text" "data1_text \<noteq> truncated_text"
  "corrupt1_text \<noteq> finish_text" "corrupt1_text \<noteq> ack1_text" "corrupt1_text \<noteq> data1_text"
  "corrupt1_text \<noteq> single_text" "corrupt1_text \<noteq> truncated_text" "single_text \<noteq> finish_text"
  "single_text \<noteq> ack1_text" "single_text \<noteq> data1_text" "single_text \<noteq> corrupt1_text"
  "single_text \<noteq> truncated_text" "truncated_text \<noteq> finish_text" "truncated_text \<noteq> ack1_text"
  "truncated_text \<noteq> data1_text" "truncated_text \<noteq> corrupt1_text" "truncated_text \<noteq> single_text"
  by (simp_all add: finish_text_def ack1_text_def data1_text_def corrupt1_text_def
        single_text_def truncated_text_def)

lemmas demo_texts_distinct = demo_texts_nonempty demo_texts_pairwise

section \<open>Receiver: corrupt and duplicate chunks\<close>

text \<open>
  Claim C2. A data packet is a loaded dict whose \<^verbatim>\<open>type\<close> is \<^verbatim>\<open>data\<close>. If the digest of
  its payload text does not equal its \<^verbatim>\<open>hash\<close> field (or one of the two is missing or is
  not a str), then one iteration of the Receiver's loop on it, from any state, writes
  nothing to the channel (no ack) and leaves \<^verbatim>\<open>stored_chunks\<close> and \<^verbatim>\<open>total_chunks\<close> as they
  were.
\<close>

theorem corrupt_chunk_rejected:
  assumes loads: "json_loads L cb = Some (JObj kvs)"
    and data: "py_eq_str (dict_get kvs ''type'') ''data''"
    and bad: "\<not> digest_matches L kvs"
  shows "\<exists>s' st. receive_tick L s cb = (s', [], st)
           \<and> stored_chunks s' = stored_chunks s \<and> total_chunks s' = total_chunks s"
proof (cases "cb = last_cb_content s \<or> cb = []")
  case True
  then show ?thesis by (simp add: receive_tick_def)
next
  case False
  define s0 where "s0 = s\<lparr>last_cb_content := cb\<rparr>"
  from data have nf: "\<not> py_eq_str (dict_get kvs ''type'') ''finish''"
    by (cases "dict_get kvs ''type''") auto
  obtain s1 w1 c1 where pd: "process_data L s0 kvs = (s1, w1, c1)"
    by (cases "process_data L s0 kvs") auto
  from process_data_result [OF pd] obtain sl r where
    latch: "latch_file_hash s0 kvs = (sl, r)" and
    alt: "(r = Some TypeError \<and> s1 = sl \<and> w1 = [] \<and> c1 = Raise TypeError)
          \<or> (r = None \<and> verify_and_store L sl kvs = (s1, w1, c1))"
    by blast
  from latch have fr: "stored_chunks sl = stored_chunks s" "total_chunks sl = total_chunks s"
    by (auto simp: s0_def dest: latch_file_hash_frame)
  from alt bad have eff: "s1 = sl \<and> w1 = [] \<and> c1 \<noteq> Fallthrough \<and> c1 \<noteq> Break"
    by (auto dest: verify_and_store_mismatch)
  from loads data nf pd have tb: "try_body L s0 cb = (s1, w1, c1)"
    by (simp add: try_body_def)
  with eff have "\<exists>c. handle_content L s0 cb = (sl, [], c)"
    by (cases c1) (auto simp: handle_content_def)
  then obtain c where "handle_content L s0 cb = (sl, [], c)" ..
  with False have "\<exists>st. receive_tick L s cb = (sl, [], st)"
    by (cases c) (auto simp: receive_tick_def s0_def)
  with fr show ?thesis by auto
qed

lemma demo_corrupt_digest:
  "\<not> digest_matches demo_lib (packet_items (demo_data\<lparr>d_payload := ''QUJE''\<rparr>))"
  by (simp add: digest_matches_def demo_lib_def demo_sha_def packet_items_def demo_data_def)

lemma entries_for_distinct:
  "distinct (map fst xs) \<Longrightarrow> k \<in> set (map fst xs)
     \<Longrightarrow> length (filter (\<lambda>kv. fst kv = k) xs) = 1"
proof (induction xs)
  case Nil
  then show ?case by simp
next
  case (Cons x xs)
  show ?case
  proof (cases "fst x = k")
    case True
    with Cons.prems(1) have "k \<notin> fst ` set xs" by simp
    then have "filter (\<lambda>kv. fst kv = k) xs = []"
      by (force simp: filter_empty_conv)
    with True show ?thesis by simp
  next
    case False
    with Cons show ?thesis by auto
  qed
qed

lemma handle_valid_data:
  assumes loads: "json_loads L cb = Some (data_packet d)"
    and digest: "d_hash d = sha256_text L (d_payload d)"
  shows "\<exists>s'. handle_content L s cb =
                 (s', [json_dumps L (ack_packet (JInt (d_chunk_num d)))], Fallthrough)
           \<and> last_cb_content s' = json_dumps L (ack_packet (JInt (d_chunk_num d)))
           \<and> stored_chunks s' =
                (if KInt (d_chunk_num d) \<in> set (map fst (stored_chunks s)) then stored_chunks s
                 else stored_chunks s @ [(KInt (d_chunk_num d), d_payload d)])"
proof -
  define kvs where "kvs = packet_items d"
  have dp: "data_packet d = JObj kvs" by (simp add: data_packet_def kvs_def)
  have ty: "dict_get kvs ''type'' = JStr ''data''" by (simp add: kvs_def packet_items_def dict_get_def)
  obtain s1 r where latch: "latch_file_hash s kvs = (s1, r)"
    by (cases "latch_file_hash s kvs") auto
  have r: "r = None"
    using latch by (auto simp: latch_file_hash_def Let_def kvs_def packet_items_def dict_get_def split: if_splits)
  from latch have fr: "stored_chunks s1 = stored_chunks s"
    by (auto dest: latch_file_hash_frame)
  have vs: "verify_and_store L s1 kvs = store_and_ack L s1 kvs (JInt (d_chunk_num d)) (d_payload d)"
    using digest by (simp add: verify_and_store_def dict_item_def kvs_def packet_items_def)
  have known: "\<not> py_eq_int (total_chunks s1) (- 1) \<or> map_of kvs ''total_chunks'' \<noteq> None"
    by (simp add: kvs_def packet_items_def)
  have hk: "py_hashable (JInt (d_chunk_num d)) = Inr (KInt (d_chunk_num d))" by simp
  from store_and_ack_known [OF known hk, of L "d_payload d"] obtain s' where
    sa: "store_and_ack L s1 kvs (JInt (d_chunk_num d)) (d_payload d) =
           (s', [json_dumps L (ack_packet (JInt (d_chunk_num d)))], Fallthrough)"
    and last: "last_cb_content s' = json_dumps L (ack_packet (JInt (d_chunk_num d)))"
    and st: "stored_chunks s' =
                (if KInt (d_chunk_num d) \<in> set (map fst (stored_chunks s1)) then stored_chunks s1
                 else stored_chunks s1 @ [(KInt (d_chunk_num d), d_payload d)])"
    by blast
  have "handle_content L s cb =
          (s', [json_dumps L (ack_packet (JInt (d_chunk_num d)))], Fallthrough)"
    using loads dp ty latch r vs sa
    by (simp add: handle_content_def try_body_def process_data_def)
  with last st fr show ?thesis by simp
qed


theorem corrupt_chunk_rejected_witness:
  "json_loads demo_lib corrupt1_text = Some (JObj (packet_items (demo_data\<lparr>d_payload := ''QUJE''\<rparr>)))
   \<and> py_eq_str (dict_get (packet_items (demo_data\<lparr>d_payload := ''QUJE''\<rparr>)) ''type'') ''data''
   \<and> \<not> digest_matches demo_lib (packet_items (demo_data\<lparr>d_payload := ''QUJE''\<rparr>))
   \<and> (\<exists>s' st. receive_tick demo_lib initial_rstate corrupt1_text = (s', [], st)
          \<and> stored_chunks s' = stored_chunks initial_rstate
          \<and> total_chunks s' = total_chunks initial_rstate)"
proof -
  have h1: "json_loads demo_lib corrupt1_text
              = Some (JObj (packet_items (demo_data\<lparr>d_payload := ''QUJE''\<rparr>)))"
    by (simp add: demo_loads data_packet_def)
  have h2: "py_eq_str (dict_get (packet_items (demo_data\<lparr>d_payload := ''QUJE''\<rparr>)) ''type'') ''data''"
    by (simp add: packet_items_def dict_get_def)
  note h3 = demo_corrupt_digest
  from corrupt_chunk_rejected [OF h1 h2 h3, of initial_rstate] h1 h2 h3 show ?thesis
    by blast
qed

text \<open>
  Claim C6. In every run of the Receiver's loop from its initial state, over any sequence
  of clipboard contents, the loop is left through the completion test of line 193 exactly
  when \<^verbatim>\<open>total_chunks\<close> is known (not \<^verbatim>\<open>-1\<close>) and equals the number of distinct keys of
  \<^verbatim>\<open>stored_chunks\<close>: while the loop is polling, and when it is left on a Finish packet or
  an exception, the condition is false. The condition is about the set of keys, so the
  order of arrival plays no part.
\<close>

theorem completion_detection:
  assumes "receive_loop L initial_rstate reads = (s, w, st)"
  shows "(st = Completed) =
           (\<not> py_eq_int (total_chunks s) (- 1)
            \<and> py_eq_int (total_chunks s) (int (card (fst ` set (stored_chunks s)))))"
proof -
  from receive_loop_invariant [OF assms] initial_rstate_invariant
  have d: "distinct (map fst (stored_chunks s))" and c: "(st = Completed) = completion_check s"
    by simp_all
  from d have "card (fst ` set (stored_chunks s)) = length (stored_chunks s)"
    using distinct_card [of "map fst (stored_chunks s)"] by simp
  with c show ?thesis by (simp add: completion_check_def)
qed


lemma demo_sha_text: "sha256_text demo_lib = demo_sha"
  by (simp add: demo_lib_def)

lemmas receiver_eval =
  receive_tick_def handle_content_def try_body_def process_data_def latch_file_hash_def
  verify_and_store_def store_and_ack_def completion_check_def dict_get_def dict_item_def
  data_packet_def packet_items_def Let_def initial_rstate_def demo_data_def demo_sha_def

lemma demo_single_run:
  "receive_loop demo_lib initial_rstate [[], single_text, data1_text] =
     (\<lparr>stored_chunks = [(KInt 1, ''QUJD'')], total_chunks = JInt 1, file_hash = JStr ''#ABC'',
       archive_type = JNull, last_cb_content = ack1_text\<rparr>, [ack1_text], Completed)"
  by (simp add: receiver_eval demo_texts_distinct demo_loads demo_dumps demo_sha_text)

theorem completion_detection_witness:
  "receive_loop demo_lib initial_rstate [[], single_text, data1_text] =
     (\<lparr>stored_chunks = [(KInt 1, ''QUJD'')], total_chunks = JInt 1, file_hash = JStr ''#ABC'',
       archive_type = JNull, last_cb_content = ack1_text\<rparr>, [ack1_text], Completed)
   \<and> \<not> py_eq_int (JInt 1) (- 1)
   \<and> py_eq_int (JInt 1) (int (card (fst ` set [(KInt 1, ''QUJD'')])))"
  using completion_detection [OF demo_single_run] demo_single_run by simp

lemma demo_partial_run:
  "receive_loop demo_lib initial_rstate [data1_text, corrupt1_text, data1_text, finish_text] =
     (\<lparr>stored_chunks = [(KInt 1, ''QUJD'')], total_chunks = JInt 2, file_hash = JStr ''#ABC'',
       archive_type = JNull, last_cb_content = finish_text\<rparr>, [ack1_text, ack1_text], Finished)"
  by (simp add: receiver_eval demo_texts_distinct demo_loads demo_dumps demo_sha_text
        finish_packet_def)

lemma receive_loop_distinct:
  assumes "receive_loop L s reads = (s', w, st)" and "distinct (map fst (stored_chunks s))"
  shows "distinct (map fst (stored_chunks s'))"
  using assms
proof (induction reads arbitrary: s s' w st)
  case Nil
  then show ?case by auto
next
  case (Cons cb reads)
  obtain s1 w1 st1 where t: "receive_tick L s cb = (s1, w1, st1)"
    by (cases "receive_tick L s cb") auto
  from receive_tick_distinct [OF t Cons.prems(2)]
  have d1: "distinct (map fst (stored_chunks s1))" .
  show ?case
  proof (cases "st1 = Polling")
    case False
    with t Cons.prems(1) have "s' = s1" by (cases st1; simp)
    with d1 show ?thesis by simp
  next
    case True
    obtain s2 w2 st2 where l: "receive_loop L s1 reads = (s2, w2, st2)"
      by (cases "receive_loop L s1 reads") auto
    with t True Cons.prems(1) have "s' = s2" by simp
    with Cons.IH [OF l d1] show ?thesis by simp
  qed
qed

text \<open>
  Claim C3. When the loop started from the initial state is left (on a Finish packet or
  on completion) with no stored chunk, or with a number of distinct stored keys that
  differs from \<^verbatim>\<open>total_chunks\<close>, the Receiver reports \<open>Incomplete\<close> with the two counts and
  returns; no file is written.
\<close>

theorem incomplete_transfer_writes_no_file:
  assumes loop: "receive_loop L initial_rstate reads = (s, w, st)"
    and left: "st = Finished \<or> st = Completed"
    and short: "fst ` set (stored_chunks s) = {}
                \<or> \<not> py_eq_int (total_chunks s) (int (card (fst ` set (stored_chunks s))))"
  shows "run_receive_mode L output_filename can_write reads =
           Some (w, Incomplete (card (fst ` set (stored_chunks s))) (total_chunks s))
         \<and> file_written (Incomplete (card (fst ` set (stored_chunks s))) (total_chunks s)) = None"
proof -
  from receive_loop_distinct [OF loop] have "distinct (map fst (stored_chunks s))"
    by (simp add: initial_rstate_def)
  then have card: "card (fst ` set (stored_chunks s)) = length (stored_chunks s)"
    using distinct_card [of "map fst (stored_chunks s)"] by simp
  from short card have
    "stored_chunks s = [] \<or> \<not> py_eq_int (total_chunks s) (int (length (stored_chunks s)))"
    by auto
  then have "finalize L output_filename can_write s =
               Incomplete (length (stored_chunks s)) (total_chunks s)"
    by (simp add: finalize_def)
  with loop left card show ?thesis
    by (auto simp: run_receive_mode_def)
qed

theorem incomplete_transfer_writes_no_file_witness:
  "receive_loop demo_lib initial_rstate [data1_text, corrupt1_text, data1_text, finish_text] =
     (\<lparr>stored_chunks = [(KInt 1, ''QUJD'')], total_chunks = JInt 2, file_hash = JStr ''#ABC'',
       archive_type = JNull, last_cb_content = finish_text\<rparr>, [ack1_text, ack1_text], Finished)
   \<and> \<not> py_eq_int (JInt 2) (int (card (fst ` set [(KInt 1, ''QUJD'')])))
   \<and> run_receive_mode demo_lib ''out.bin'' True
        [data1_text, corrupt1_text, data1_text, finish_text] =
        Some ([ack1_text, ack1_text], Incomplete 1 (JInt 2))
   \<and> file_written (Incomplete 1 (JInt 2)) = None"
  using incomplete_transfer_writes_no_file [OF demo_partial_run, of "''out.bin''" True]
    demo_partial_run
  by simp

text \<open>
  Claim C4. Two successive deliveries of the same data packet with a matching digest:
  each iteration writes the ack for its \<^verbatim>\<open>chunk_num\<close>, and \<^verbatim>\<open>stored_chunks\<close> holds exactly
  one item for that key after the first and after the second; the second delivery changes
  no stored item. The packet is new content at both deliveries (after the first, the
  Receiver's last seen content is its own ack), and the first delivery does not end the
  loop.
\<close>

theorem duplicate_delivery_idempotent:
  assumes loads: "json_loads L cb = Some (data_packet d)"
    and digest: "d_hash d = sha256_text L (d_payload d)"
    and dist: "distinct (map fst (stored_chunks s))"
    and fresh: "cb \<noteq> []" "cb \<noteq> last_cb_content s"
               "cb \<noteq> json_dumps L (ack_packet (JInt (d_chunk_num d)))"
    and first: "receive_tick L s cb = (s1, w1, Polling)"
    and second: "receive_tick L s1 cb = (s2, w2, st2)"
  shows "w1 = [json_dumps L (ack_packet (JInt (d_chunk_num d)))]
       \<and> w2 = [json_dumps L (ack_packet (JInt (d_chunk_num d)))]
       \<and> entries_for (KInt (d_chunk_num d)) s1 = 1
       \<and> entries_for (KInt (d_chunk_num d)) s2 = 1
       \<and> stored_chunks s2 = stored_chunks s1"
proof -
  let ?k = "KInt (d_chunk_num d)"
  let ?ack = "json_dumps L (ack_packet (JInt (d_chunk_num d)))"
  from handle_valid_data [OF loads digest, of "s\<lparr>last_cb_content := cb\<rparr>"]
  obtain t1 where
    h1: "handle_content L (s\<lparr>last_cb_content := cb\<rparr>) cb = (t1, [?ack], Fallthrough)"
    and l1: "last_cb_content t1 = ?ack"
    and st1: "stored_chunks t1 =
                (if ?k \<in> set (map fst (stored_chunks s)) then stored_chunks s
                 else stored_chunks s @ [(?k, d_payload d)])"
    by auto
  from h1 first fresh have s1: "s1 = t1" and w1: "w1 = [?ack]"
    by (auto simp: receive_tick_def split: if_splits)
  from st1 s1 have k1: "?k \<in> set (map fst (stored_chunks s1))"
    by (auto split: if_splits)
  from st1 s1 dist have d1: "distinct (map fst (stored_chunks s1))"
    by (auto split: if_splits)
  from handle_valid_data [OF loads digest, of "s1\<lparr>last_cb_content := cb\<rparr>"]
  obtain t2 where
    h2: "handle_content L (s1\<lparr>last_cb_content := cb\<rparr>) cb = (t2, [?ack], Fallthrough)"
    and st2: "stored_chunks t2 =
                (if ?k \<in> set (map fst (stored_chunks s1)) then stored_chunks s1
                 else stored_chunks s1 @ [(?k, d_payload d)])"
    by auto
  from l1 s1 fresh have "cb \<noteq> last_cb_content s1" by simp
  with h2 second fresh have s2: "s2 = t2" and w2: "w2 = [?ack]"
    by (auto simp: receive_tick_def split: if_splits)
  from st2 s2 k1 have same: "stored_chunks s2 = stored_chunks s1" by simp
  from entries_for_distinct [OF d1 k1] have "entries_for ?k s1 = 1"
    by (simp add: entries_for_def)
  with same w1 w2 show ?thesis by (simp add: entries_for_def)
qed

lemma demo_first_delivery:
  "receive_tick demo_lib initial_rstate data1_text =
     (\<lparr>stored_chunks = [(KInt 1, ''QUJD'')], total_chunks = JInt 2, file_hash = JStr ''#ABC'',
       archive_type = JNull, last_cb_content = ack1_text\<rparr>, [ack1_text], Polling)"
  by (simp add: receiver_eval demo_texts_distinct demo_loads demo_dumps demo_sha_text)

lemma demo_second_delivery:
  "receive_tick demo_lib
     \<lparr>stored_chunks = [(KInt 1, ''QUJD'')], total_chunks = JInt 2, file_hash = JStr ''#ABC'',
       archive_type = JNull, last_cb_content = ack1_text\<rparr> data1_text =
     (\<lparr>stored_chunks = [(KInt 1, ''QUJD'')], total_chunks = JInt 2, file_hash = JStr ''#ABC'',
       archive_type = JNull, last_cb_content = ack1_text\<rparr>, [ack1_text], Polling)"
  by (simp add: receiver_eval demo_texts_distinct demo_loads demo_dumps demo_sha_text)

theorem duplicate_delivery_idempotent_witness:
  "json_loads demo_lib data1_text = Some (data_packet demo_data)
   \<and> d_hash demo_data = sha256_text demo_lib (d_payload demo_data)
   \<and> distinct (map fst (stored_chunks initial_rstate))
   \<and> data1_text \<noteq> [] \<and> data1_text \<noteq> last_cb_content initial_rstate
   \<and> data1_text \<noteq> json_dumps demo_lib (ack_packet (JInt (d_chunk_num demo_data)))
   \<and> entries_for (KInt 1)
        \<lparr>stored_chunks = [(KInt 1, ''QUJD'')], total_chunks = JInt 2, file_hash = JStr ''#ABC'',
          archive_type = JNull, last_cb_content = ack1_text\<rparr> = 1"
proof -
  have h1: "json_loads demo_lib data1_text = Some (data_packet demo_data)"
    by (rule demo_loads)
  have h2: "d_hash demo_data = sha256_text demo_lib (d_payload demo_data)"
    by (simp add: demo_data_def demo_sha_text demo_sha_def)
  have h3: "distinct (map fst (stored_chunks initial_rstate))"
    by (simp add: initial_rstate_def)
  have h4: "data1_text \<noteq> []" "data1_text \<noteq> last_cb_content initial_rstate"
    "data1_text \<noteq> json_dumps demo_lib (ack_packet (JInt (d_chunk_num demo_data)))"
    by (simp_all add: demo_texts_distinct initial_rstate_def demo_data_def demo_dumps)
  from duplicate_delivery_idempotent [OF h1 h2 h3 h4 demo_first_delivery demo_second_delivery]
    h1 h2 h3 h4
  show ?thesis by (simp add: demo_data_def)
qed

section \<open>Sender: steps and runs\<close>

lemma check_ack_total: "check_ack L c n = Inr (is_ack_for L c n)"
proof (cases "json_loads L c")
  case None
  then show ?thesis by (simp add: check_ack_def ack_matches_def is_ack_for_def)
next
  case (Some v)
  then show ?thesis
    by (cases v) (simp_all add: check_ack_def ack_matches_def is_ack_for_def)
qed

lemma sender_step_Sending:
  "sender_pc s = Sending \<Longrightarrow>
     sender_step L job s obs = (s\<lparr>sender_pc := Awaiting (fst obs)\<rparr>, [chunk_packet L job (chunk_index s)])"
  by (simp add: sender_step_def)

lemma sender_step_timeout:
  "sender_pc s = Awaiting st \<Longrightarrow> \<not> (fst obs - st < ACK_TIMEOUT_SECONDS) \<Longrightarrow>
     sender_step L job s obs = (s\<lparr>sender_pc := Sending\<rparr>, [])"
  by (simp add: sender_step_def)

lemma sender_step_seen:
  "sender_pc s = Awaiting st \<Longrightarrow> fst obs - st < ACK_TIMEOUT_SECONDS \<Longrightarrow>
     snd obs = sender_last_cb s \<Longrightarrow> sender_step L job s obs = (s, [])"
  by (simp add: sender_step_def)

lemma sender_step_new:
  "sender_pc s = Awaiting st \<Longrightarrow> fst obs - st < ACK_TIMEOUT_SECONDS \<Longrightarrow>
     snd obs \<noteq> sender_last_cb s \<Longrightarrow>
     sender_step L job s obs =
       (if is_ack_for L (snd obs) (int (chunk_index s) + 1)
        then (if chunk_index s + 1 < total_chunks_of (base64_string job)
              then (s\<lparr>sender_last_cb := snd obs, chunk_index := chunk_index s + 1,
                       sender_pc := Sending\<rparr>, [])
              else (s\<lparr>sender_last_cb := snd obs, chunk_index := chunk_index s + 1,
                       sender_pc := Done\<rparr>, [json_dumps L finish_packet]))
        else (s\<lparr>sender_last_cb := snd obs\<rparr>, []))"
  by (simp add: sender_step_def check_ack_total)

lemma sender_step_idle:
  "sender_pc s = Done \<or> sender_pc s = Failed e \<Longrightarrow> sender_step L job s obs = (s, [])"
  by (auto simp: sender_step_def)

lemma sender_step_effect:
  assumes "sender_step L job s obs = (s', w)"
  shows "(chunk_index s' = chunk_index s
          \<or> (chunk_index s' = chunk_index s + 1
              \<and> is_ack_for L (snd obs) (int (chunk_index s) + 1)
              \<and> (\<exists>st. sender_pc s = Awaiting st \<and> fst obs - st < ACK_TIMEOUT_SECONDS)))
       \<and> (w = [] \<or> w = [chunk_packet L job (chunk_index s)] \<and> sender_pc s = Sending \<and> chunk_index s' = chunk_index s
            \<or> w = [json_dumps L finish_packet] \<and> sender_pc s' = Done \<and> chunk_index s' = chunk_index s + 1)"
proof (cases "sender_pc s")
  case Sending
  with assms show ?thesis by (auto simp: sender_step_Sending)
next
  case (Awaiting st)
  show ?thesis
  proof (cases "fst obs - st < ACK_TIMEOUT_SECONDS")
    case False
    with Awaiting assms show ?thesis by (auto simp: sender_step_timeout)
  next
    case True
    show ?thesis
    proof (cases "snd obs = sender_last_cb s")
      case same: True
      with Awaiting True assms show ?thesis by (auto simp: sender_step_seen)
    next
      case False
      with Awaiting True assms show ?thesis
        by (auto simp: sender_step_new split: if_splits)
    qed
  qed
next
  case Done
  with assms show ?thesis by (auto simp: sender_step_idle)
next
  case (Failed e)
  with assms show ?thesis by (auto simp: sender_step_idle)
qed

lemma sender_run_effect:
  assumes "sender_run L job s obs = (s', ws)"
  shows "chunk_index s \<le> chunk_index s'
       \<and> (\<forall>i. chunk_index s \<le> i \<and> i < chunk_index s'
              \<longrightarrow> list_ex (\<lambda>ob. is_ack_for L (snd ob) (int i + 1)) obs)
       \<and> (\<forall>w \<in> set ws. w = json_dumps L finish_packet
              \<or> (\<exists>i. chunk_index s \<le> i \<and> i \<le> chunk_index s' \<and> w = chunk_packet L job i))"
  using assms
proof (induction obs arbitrary: s s' ws)
  case Nil
  then show ?case by simp
next
  case (Cons ob obs)
  obtain s1 w1 where st: "sender_step L job s ob = (s1, w1)"
    by (cases "sender_step L job s ob") auto
  obtain s2 w2 where run: "sender_run L job s1 obs = (s2, w2)"
    by (cases "sender_run L job s1 obs") auto
  from st run Cons.prems have eq: "s' = s2" "ws = w1 @ w2" by simp_all
  note step = sender_step_effect [OF st]
  note IH = Cons.IH [OF run]
  from step have le1: "chunk_index s \<le> chunk_index s1" by auto
  from IH have le2: "chunk_index s1 \<le> chunk_index s2" by simp
  have acks: "list_ex (\<lambda>ob. is_ack_for L (snd ob) (int i + 1)) (ob # obs)"
    if "chunk_index s \<le> i" "i < chunk_index s2" for i
  proof (cases "chunk_index s1 \<le> i")
    case True
    with that IH show ?thesis by simp
  next
    case False
    with that step have "i = chunk_index s" "is_ack_for L (snd ob) (int (chunk_index s) + 1)"
      by auto
    then show ?thesis by simp
  qed
  have writes: "w = json_dumps L finish_packet
              \<or> (\<exists>i. chunk_index s \<le> i \<and> i \<le> chunk_index s2 \<and> w = chunk_packet L job i)"
    if "w \<in> set (w1 @ w2)" for w
  proof (cases "w \<in> set w1")
    case True
    with step le1 le2 show ?thesis by auto
  next
    case False
    with that have "w \<in> set w2" by simp
    with IH le1 show ?thesis by (meson le_trans)
  qed
  from le1 le2 acks writes eq show ?case by auto
qed


lemma sender_step_last_written:
  assumes "sender_step L job s ob = (s', w)"
    and "\<forall>st. sender_pc s = Awaiting st \<longrightarrow> ws \<noteq> [] \<and> last ws = chunk_packet L job (chunk_index s)"
  shows "\<forall>st. sender_pc s' = Awaiting st
           \<longrightarrow> ws @ w \<noteq> [] \<and> last (ws @ w) = chunk_packet L job (chunk_index s')"
proof (cases "sender_pc s")
  case Sending
  with assms show ?thesis by (auto simp: sender_step_Sending)
next
  case (Awaiting st)
  show ?thesis
  proof (cases "fst ob - st < ACK_TIMEOUT_SECONDS")
    case False
    with Awaiting assms show ?thesis by (auto simp: sender_step_timeout)
  next
    case True
    show ?thesis
    proof (cases "snd ob = sender_last_cb s")
      case same: True
      with Awaiting True assms show ?thesis by (auto simp: sender_step_seen)
    next
      case False
      with Awaiting True assms show ?thesis
        by (auto simp: sender_step_new split: if_splits)
    qed
  qed
next
  case Done
  with assms show ?thesis by (auto simp: sender_step_idle)
next
  case (Failed e)
  with assms show ?thesis by (auto simp: sender_step_idle)
qed

lemma sender_run_last_written:
  assumes "sender_run L job s obs = (s', w)"
    and "\<forall>st. sender_pc s = Awaiting st \<longrightarrow> ws \<noteq> [] \<and> last ws = chunk_packet L job (chunk_index s)"
  shows "\<forall>st. sender_pc s' = Awaiting st
           \<longrightarrow> ws @ w \<noteq> [] \<and> last (ws @ w) = chunk_packet L job (chunk_index s')"
  using assms
proof (induction obs arbitrary: s s' w ws)
  case Nil
  then show ?case by simp
next
  case (Cons ob obs)
  obtain s1 w1 where st: "sender_step L job s ob = (s1, w1)"
    by (cases "sender_step L job s ob") auto
  obtain s2 w2 where run: "sender_run L job s1 obs = (s2, w2)"
    by (cases "sender_run L job s1 obs") auto
  from st run Cons.prems(1) have eq: "s' = s2" "w = w1 @ w2" by simp_all
  from sender_step_last_written [OF st Cons.prems(2)]
  have "\<forall>st. sender_pc s1 = Awaiting st
           \<longrightarrow> ws @ w1 \<noteq> [] \<and> last (ws @ w1) = chunk_packet L job (chunk_index s1)" .
  from Cons.IH [OF run this] eq show ?case by simp
qed

lemma sender_start_state:
  "sender_start L job = (s0, w0) \<Longrightarrow>
     chunk_index s0 = 0 \<and> (sender_pc s0 = Sending \<or> sender_pc s0 = Done)
     \<and> (w0 = [] \<or> w0 = [json_dumps L finish_packet])"
  by (auto simp: sender_start_def split: if_splits)

lemma run_send_mode_invariant:
  assumes "run_send_mode L binary_data ext obs = (s, ws)"
  shows "(\<forall>i < chunk_index s. list_ex (\<lambda>ob. is_ack_for L (snd ob) (int i + 1)) obs)
       \<and> (\<forall>w \<in> set ws. w = json_dumps L finish_packet
              \<or> (\<exists>i \<le> chunk_index s. w = chunk_packet L (prepare_job L binary_data ext) i))
       \<and> (\<forall>st. sender_pc s = Awaiting st
              \<longrightarrow> ws \<noteq> [] \<and> last ws = chunk_packet L (prepare_job L binary_data ext) (chunk_index s))"
proof -
  define job where "job = prepare_job L binary_data ext"
  obtain s0 w0 where start: "sender_start L job = (s0, w0)"
    by (cases "sender_start L job") auto
  obtain s1 w1 where run: "sender_run L job s0 obs = (s1, w1)"
    by (cases "sender_run L job s0 obs") auto
  from assms start run have eq: "s = s1" "ws = w0 @ w1"
    by (simp_all add: run_send_mode_def job_def Let_def)
  note st0 = sender_start_state [OF start]
  note eff = sender_run_effect [OF run]
  from st0 have "\<forall>st. sender_pc s0 = Awaiting st
                   \<longrightarrow> w0 \<noteq> [] \<and> last w0 = chunk_packet L job (chunk_index s0)"
    by auto
  from sender_run_last_written [OF run this]
  have lw: "\<forall>st. sender_pc s1 = Awaiting st
              \<longrightarrow> w0 @ w1 \<noteq> [] \<and> last (w0 @ w1) = chunk_packet L job (chunk_index s1)" .
  have writes: "w = json_dumps L finish_packet \<or> (\<exists>i \<le> chunk_index s1. w = chunk_packet L job i)"
    if "w \<in> set (w0 @ w1)" for w
  proof (cases "w \<in> set w0")
    case True
    with st0 show ?thesis by auto
  next
    case False
    with that have "w \<in> set w1" by simp
    with eff show ?thesis by blast
  qed
  from st0 eff have "\<forall>i < chunk_index s1. list_ex (\<lambda>ob. is_ack_for L (snd ob) (int i + 1)) obs"
    by simp
  with writes lw eq show ?thesis
    unfolding job_def by blast
qed

lemma sender_retry_after_timeout:
  assumes "sender_pc s = Awaiting st" and "\<not> (t - st < ACK_TIMEOUT_SECONDS)"
  shows "sender_run L job s [(t, c), (t', c')] =
           (s\<lparr>sender_pc := Awaiting t'\<rparr>, [chunk_packet L job (chunk_index s)])"
  using assms by (simp add: sender_step_timeout sender_step_Sending)

lemma sender_retry_round:
  assumes "sender_pc s = Sending"
  shows "sender_run L job s ((t, c) # (t + ACK_TIMEOUT_SECONDS, c') # rest) =
           (case sender_run L job s rest of
              (s', w) \<Rightarrow> (s', chunk_packet L job (chunk_index s) # w))"
proof -
  have "sender_step L job s (t, c) =
          (s\<lparr>sender_pc := Awaiting t\<rparr>, [chunk_packet L job (chunk_index s)])"
    using assms by (simp add: sender_step_Sending)
  moreover have "sender_step L job (s\<lparr>sender_pc := Awaiting t\<rparr>) (t + ACK_TIMEOUT_SECONDS, c') =
          (s, [])"
    using assms by (simp add: sender_step_timeout)
  ultimately show ?thesis by (simp split: prod.split)
qed

lemma sender_retries_unbounded:
  assumes "sender_pc s = Sending"
  shows "sender_run L job s (concat (replicate n [(t, c), (t + ACK_TIMEOUT_SECONDS, c')])) =
           (s, replicate n (chunk_packet L job (chunk_index s)))"
proof (induction n)
  case 0
  show ?case by simp
next
  case (Suc n)
  then show ?case using sender_retry_round [OF assms] by simp
qed

lemma sender_run_Done:
  "sender_pc s = Done \<Longrightarrow> sender_run L job s obs = (s, [])"
  by (induction obs) (simp_all add: sender_step_idle)

section \<open>Sender: stop-and-wait\<close>

text \<open>
  Claim C5. The Sender has at most one chunk outstanding. In every run of
  \<^verbatim>\<open>run_send_mode\<close>, over any sequence of clock readings and clipboard contents: for every
  chunk before the current one, a content was observed that loads as an ack whose
  \<^verbatim>\<open>ack_num\<close> equals its chunk number; every data packet written is the packet of the
  current chunk or of an earlier one; and while the Sender waits, the last packet written is
  the packet of the current chunk. One step moves to the next chunk only on a content that
  is an ack for the current chunk number. When the clock test of the wait fails (15 units
  after \<^verbatim>\<open>start_time\<close>), the next thing written is the packet of the same chunk, equal to
  the one sent before, and the wait starts again from a new \<^verbatim>\<open>start_time\<close>. The retries have
  no bound: \<open>n\<close> timeouts in a row give \<open>n\<close> writes of the same packet, for every \<open>n\<close>.
  Equality with the chunk number is Python's \<^verbatim>\<open>==\<close>, and the clock readings are reals.
\<close>

theorem sender_stop_and_wait:
  "(run_send_mode L binary_data ext obs = (s, ws) \<longrightarrow>
      (\<forall>i < chunk_index s. list_ex (\<lambda>ob. is_ack_for L (snd ob) (int i + 1)) obs)
      \<and> (\<forall>w \<in> set ws. w = json_dumps L finish_packet
             \<or> (\<exists>i \<le> chunk_index s. w = chunk_packet L (prepare_job L binary_data ext) i))
      \<and> (\<forall>st. sender_pc s = Awaiting st
             \<longrightarrow> ws \<noteq> []
                 \<and> last ws = chunk_packet L (prepare_job L binary_data ext) (chunk_index s)))
   \<and> (sender_step L job sa ob = (sb, wb) \<and> chunk_index sb \<noteq> chunk_index sa \<longrightarrow>
        chunk_index sb = chunk_index sa + 1
        \<and> is_ack_for L (snd ob) (int (chunk_index sa) + 1))
   \<and> (sender_pc sc = Awaiting start \<and> \<not> (t - start < ACK_TIMEOUT_SECONDS) \<longrightarrow>
        sender_run L job sc [(t, c), (t', c')] =
          (sc\<lparr>sender_pc := Awaiting t'\<rparr>, [chunk_packet L job (chunk_index sc)]))
   \<and> (sender_pc sd = Sending \<longrightarrow>
        sender_run L job sd (concat (replicate n [(t0, c0), (t0 + ACK_TIMEOUT_SECONDS, c1)])) =
          (sd, replicate n (chunk_packet L job (chunk_index sd))))"
proof -
  have a: "run_send_mode L binary_data ext obs = (s, ws) \<longrightarrow>
      (\<forall>i < chunk_index s. list_ex (\<lambda>ob. is_ack_for L (snd ob) (int i + 1)) obs)
      \<and> (\<forall>w \<in> set ws. w = json_dumps L finish_packet
             \<or> (\<exists>i \<le> chunk_index s. w = chunk_packet L (prepare_job L binary_data ext) i))
      \<and> (\<forall>st. sender_pc s = Awaiting st
             \<longrightarrow> ws \<noteq> []
                 \<and> last ws = chunk_packet L (prepare_job L binary_data ext) (chunk_index s))"
    using run_send_mode_invariant by blast
  have b: "sender_step L job sa ob = (sb, wb) \<and> chunk_index sb \<noteq> chunk_index sa \<longrightarrow>
        chunk_index sb = chunk_index sa + 1
        \<and> is_ack_for L (snd ob) (int (chunk_index sa) + 1)"
    using sender_step_effect [of L job sa ob sb wb] by blast
  have c: "sender_pc sc = Awaiting start \<and> \<not> (t - start < ACK_TIMEOUT_SECONDS) \<longrightarrow>
        sender_run L job sc [(t, c), (t', c')] =
          (sc\<lparr>sender_pc := Awaiting t'\<rparr>, [chunk_packet L job (chunk_index sc)])"
    using sender_retry_after_timeout by blast
  have d: "sender_pc sd = Sending \<longrightarrow>
        sender_run L job sd (concat (replicate n [(t0, c0), (t0 + ACK_TIMEOUT_SECONDS, c1)])) =
          (sd, replicate n (chunk_packet L job (chunk_index sd)))"
    using sender_retries_unbounded by blast
  from a b c d show ?thesis by (intro conjI)
qed

text \<open>A run of the Sender on the three bytes \<^verbatim>\<open>ABC\<close> with the demo library.\<close>

lemma b64_ABC: "b64encode [65, 66, 67] = ''QUJD''"
  by code_simp

lemma demo_sha_ABC: "sha256_bytes demo_lib [65, 66, 67] = ''#ABC''"
  by code_simp

lemma demo_job: 
  "prepare_job demo_lib [65, 66, 67] None =
     \<lparr>base64_string = ''QUJD'', sent_file_hash = ''#ABC'', sent_archive_type = None\<rparr>"
  by (simp only: prepare_job_def b64_ABC demo_sha_ABC)

lemma total_QUJD: "total_chunks_of ''QUJD'' = 1"
  by (simp add: total_chunks_of_div CHUNK_SIZE_def)

lemma demo_chunk_packet:
  "chunk_packet demo_lib \<lparr>base64_string = ''QUJD'', sent_file_hash = ''#ABC'', sent_archive_type = None\<rparr> 0 = single_text"
  by (simp add: chunk_packet_def chunk_fields_def total_QUJD chunk_payload_def py_slice_def CHUNK_SIZE_def
       demo_lib_def demo_table_def  demo_sha_def data_packet_def packet_items_def demo_data_def finish_packet_def ack_packet_def)

lemma demo_is_ack: "is_ack_for demo_lib ack1_text 1" "\<not> is_ack_for demo_lib single_text 1"
  by (simp_all add: is_ack_for_def demo_loads ack_packet_def dict_get_def data_packet_def packet_items_def)

lemma demo_send_run:
  "run_send_mode demo_lib [65, 66, 67] None
     [(0, []), (1, []), (2, single_text), (16, single_text), (17, single_text), (18, ack1_text)] =
     (\<lparr>chunk_index = 1, sender_pc = Done, sender_last_cb = ack1_text\<rparr>,
      [single_text, single_text, finish_text])"
  by (simp add: run_send_mode_def demo_job sender_start_def total_QUJD sender_step_def
        ACK_TIMEOUT_SECONDS_def demo_chunk_packet check_ack_total demo_is_ack demo_dumps
        demo_texts_distinct)


lemma demo_ack_step:
  "sender_step demo_lib demo_job_rec
     \<lparr>chunk_index = 0, sender_pc = Awaiting 17, sender_last_cb = single_text\<rparr> (18, ack1_text) =
     (\<lparr>chunk_index = 1, sender_pc = Done, sender_last_cb = ack1_text\<rparr>, [finish_text])"
  by (simp add: sender_step_def ACK_TIMEOUT_SECONDS_def check_ack_total demo_is_ack demo_dumps
        demo_texts_distinct demo_job_rec_def total_QUJD)

theorem sender_stop_and_wait_witness:
  "run_send_mode demo_lib [65, 66, 67] None
     [(0, []), (1, []), (2, single_text), (16, single_text), (17, single_text), (18, ack1_text)] =
     (\<lparr>chunk_index = 1, sender_pc = Done, sender_last_cb = ack1_text\<rparr>,
      [single_text, single_text, finish_text])
   \<and> list_ex (\<lambda>ob. is_ack_for demo_lib (snd ob) 1)
        [(0, []), (1, []), (2, single_text), (16, single_text), (17, single_text), (18, ack1_text)]
   \<and> sender_step demo_lib demo_job_rec
        \<lparr>chunk_index = 0, sender_pc = Awaiting 17, sender_last_cb = single_text\<rparr> (18, ack1_text) =
        (\<lparr>chunk_index = 1, sender_pc = Done, sender_last_cb = ack1_text\<rparr>, [finish_text])
   \<and> is_ack_for demo_lib ack1_text 1
   \<and> \<not> ((16::real) - 0 < ACK_TIMEOUT_SECONDS)
   \<and> sender_run demo_lib demo_job_rec
        \<lparr>chunk_index = 0, sender_pc = Awaiting 0, sender_last_cb = single_text\<rparr>
        [(16, single_text), (17, single_text)] =
        (\<lparr>chunk_index = 0, sender_pc = Awaiting 17, sender_last_cb = single_text\<rparr>, [single_text])
   \<and> sender_run demo_lib demo_job_rec
        \<lparr>chunk_index = 0, sender_pc = Sending, sender_last_cb = []\<rparr>
        (concat (replicate 3 [(0, []), (0 + ACK_TIMEOUT_SECONDS, [])])) =
        (\<lparr>chunk_index = 0, sender_pc = Sending, sender_last_cb = []\<rparr>, replicate 3 single_text)"
proof -
  have to: "\<not> ((16::real) - 0 < ACK_TIMEOUT_SECONDS)"
    by (simp add: ACK_TIMEOUT_SECONDS_def)
  have pk: "chunk_packet demo_lib demo_job_rec 0 = single_text"
    by (simp add: demo_job_rec_def demo_chunk_packet)
  from sender_stop_and_wait [of demo_lib "[65, 66, 67]" None
      "[(0, []), (1, []), (2, single_text), (16, single_text), (17, single_text), (18, ack1_text)]"
      "\<lparr>chunk_index = 1, sender_pc = Done, sender_last_cb = ack1_text\<rparr>"
      "[single_text, single_text, finish_text]"
      demo_job_rec
      "\<lparr>chunk_index = 0, sender_pc = Awaiting 17, sender_last_cb = single_text\<rparr>"
      "(18, ack1_text)"
      "\<lparr>chunk_index = 1, sender_pc = Done, sender_last_cb = ack1_text\<rparr>" "[finish_text]"
      "\<lparr>chunk_index = 0, sender_pc = Awaiting 0, sender_last_cb = single_text\<rparr>" 0 16
      single_text 17 single_text
      "\<lparr>chunk_index = 0, sender_pc = Sending, sender_last_cb = []\<rparr>" 3 0 "[]" "[]"]
    demo_send_run demo_ack_step to pk
  show ?thesis by simp
qed


section \<open>Receiver: channel noise\<close>

text \<open>
  Whatever the library, a content that loads as anything but a dict ends the Receiver with
  \<^verbatim>\<open>AttributeError\<close>.
\<close>

lemma receive_tick_non_object:
  assumes "json_loads L cb = Some v" and "\<forall>kvs. v \<noteq> JObj kvs"
    and "cb \<noteq> []" and "cb \<noteq> last_cb_content s"
  shows "receive_tick L s cb = (s\<lparr>last_cb_content := cb\<rparr>, [], Crashed AttributeError)"
  using assms
  by (cases v) (simp_all add: receive_tick_def handle_content_def try_body_def)

text \<open>
  Claim C1 says that the Receiver ignores every malformed content without an uncontrolled
  exception and without a change of its session state. The \<^verbatim>\<open>except\<close> clause of line 192
  names \<^verbatim>\<open>JSONDecodeError\<close>, \<^verbatim>\<open>KeyError\<close> and \<^verbatim>\<open>TypeError\<close> but not \<^verbatim>\<open>AttributeError\<close>, which
  the Sender's clause of line 152 does name. On the content \<^verbatim>\<open>5\<close>, which is valid JSON but
  not an object, \<^verbatim>\<open>packet.get\<close> raises \<^verbatim>\<open>AttributeError\<close> and the Receiver ends with it. On a
  data packet without \<^verbatim>\<open>chunk_num\<close> and \<^verbatim>\<open>payload\<close> the \<^verbatim>\<open>KeyError\<close> is caught, but
  \<^verbatim>\<open>file_hash\<close> has been set from the packet before.
\<close>

theorem receiver_uncaught_attribute_error:
  "receive_tick demo_lib initial_rstate ''5'' =
     (initial_rstate\<lparr>last_cb_content := ''5''\<rparr>, [], Crashed AttributeError)
   \<and> run_receive_mode demo_lib ''out.bin'' True [''5''] = Some ([], Aborted AttributeError)
   \<and> receive_tick demo_lib initial_rstate truncated_text =
     (initial_rstate\<lparr>file_hash := JStr ''#ABC'', last_cb_content := truncated_text\<rparr>, [], Polling)"
proof -
  have "json_loads demo_lib truncated_text
          = Some (JObj [(''type'', JStr ''data''), (''original_file_hash'', JStr ''#ABC'')])"
    by (simp add: demo_lib_def demo_table_def demo_texts_distinct)
  then show ?thesis
    by (simp add: run_receive_mode_def receiver_eval demo_loads demo_texts_distinct)
qed

section \<open>The pollers\<close>

text \<open>
  Claim C8 as stated fails for the Receiver: after it has seen a content, an empty
  clipboard is new content, yet line 168 (\<^verbatim>\<open>or not cb_content\<close>) skips it: the state,
  with its \<^verbatim>\<open>last_cb_content\<close>, is unchanged and the handler does not run.
\<close>

theorem poller_empty_content_counterexample:
  "[] \<noteq> last_cb_content
            \<lparr>stored_chunks = [(KInt 1, ''QUJD'')], total_chunks = JInt 2,
              file_hash = JStr ''#ABC'', archive_type = JNull, last_cb_content = ack1_text\<rparr>
   \<and> receive_tick demo_lib
         \<lparr>stored_chunks = [(KInt 1, ''QUJD'')], total_chunks = JInt 2,
           file_hash = JStr ''#ABC'', archive_type = JNull, last_cb_content = ack1_text\<rparr> [] =
       (\<lparr>stored_chunks = [(KInt 1, ''QUJD'')], total_chunks = JInt 2,
          file_hash = JStr ''#ABC'', archive_type = JNull, last_cb_content = ack1_text\<rparr>,
        [], Polling)
   \<and> last_cb_content (fst (receive_tick demo_lib
         \<lparr>stored_chunks = [(KInt 1, ''QUJD'')], total_chunks = JInt 2,
           file_hash = JStr ''#ABC'', archive_type = JNull, last_cb_content = ack1_text\<rparr> []))
       \<noteq> []"
  using demo_texts_nonempty(2) by (simp add: receive_tick_def)

text \<open>
  Claim C8, amended. On each poll, a content equal to the last one seen is skipped: the
  state is unchanged and the handler does not run. The Receiver skips an empty content in
  the same way. Any other content becomes the last one seen and goes to the handler: for
  the Receiver the new state and what is written are those of \<open>handle_content\<close> on the
  state with \<^verbatim>\<open>last_cb_content\<close> updated; for the Sender, within the timeout, every content
  that differs from the last one seen, the empty one included, becomes the last one seen
  and is tested for the ack, and the Sender advances exactly when it is one.
\<close>

theorem poller_skips_seen_content:
  "(cb = last_cb_content s \<or> cb = [] \<longrightarrow> receive_tick L s cb = (s, [], Polling))
   \<and> (cb' \<noteq> last_cb_content s' \<and> cb' \<noteq> [] \<longrightarrow>
        fst (receive_tick L s' cb') = fst (handle_content L (s'\<lparr>last_cb_content := cb'\<rparr>) cb')
        \<and> fst (snd (receive_tick L s' cb'))
            = fst (snd (handle_content L (s'\<lparr>last_cb_content := cb'\<rparr>) cb')))
   \<and> (sender_pc ss = Awaiting start \<and> fst ob - start < ACK_TIMEOUT_SECONDS
        \<and> snd ob = sender_last_cb ss \<longrightarrow> sender_step L job ss ob = (ss, []))
   \<and> (sender_pc ss' = Awaiting start' \<and> fst ob' - start' < ACK_TIMEOUT_SECONDS
        \<and> snd ob' \<noteq> sender_last_cb ss' \<longrightarrow>
        sender_last_cb (fst (sender_step L job ss' ob')) = snd ob'
        \<and> (chunk_index (fst (sender_step L job ss' ob')) = chunk_index ss' + 1)
            = is_ack_for L (snd ob') (int (chunk_index ss') + 1))"
proof -
  have a: "cb = last_cb_content s \<or> cb = [] \<longrightarrow> receive_tick L s cb = (s, [], Polling)"
    by (simp add: receive_tick_def)
  have b: "cb' \<noteq> last_cb_content s' \<and> cb' \<noteq> [] \<longrightarrow>
        fst (receive_tick L s' cb') = fst (handle_content L (s'\<lparr>last_cb_content := cb'\<rparr>) cb')
        \<and> fst (snd (receive_tick L s' cb'))
            = fst (snd (handle_content L (s'\<lparr>last_cb_content := cb'\<rparr>) cb'))"
  proof (cases "handle_content L (s'\<lparr>last_cb_content := cb'\<rparr>) cb'")
    case (fields s1 w1 c1)
    then show ?thesis by (cases c1) (simp_all add: receive_tick_def)
  qed
  have c: "sender_pc ss = Awaiting start \<and> fst ob - start < ACK_TIMEOUT_SECONDS
        \<and> snd ob = sender_last_cb ss \<longrightarrow> sender_step L job ss ob = (ss, [])"
    by (simp add: sender_step_seen)
  have d: "sender_pc ss' = Awaiting start' \<and> fst ob' - start' < ACK_TIMEOUT_SECONDS
        \<and> snd ob' \<noteq> sender_last_cb ss' \<longrightarrow>
        sender_last_cb (fst (sender_step L job ss' ob')) = snd ob'
        \<and> (chunk_index (fst (sender_step L job ss' ob')) = chunk_index ss' + 1)
            = is_ack_for L (snd ob') (int (chunk_index ss') + 1)"
    by (simp add: sender_step_new)
  from a b c d show ?thesis by (intro conjI)
qed


theorem poller_skips_seen_content_witness:
  "receive_tick demo_lib
      \<lparr>stored_chunks = [(KInt 1, ''QUJD'')], total_chunks = JInt 2,
        file_hash = JStr ''#ABC'', archive_type = JNull, last_cb_content = ack1_text\<rparr> [] =
     (\<lparr>stored_chunks = [(KInt 1, ''QUJD'')], total_chunks = JInt 2,
        file_hash = JStr ''#ABC'', archive_type = JNull, last_cb_content = ack1_text\<rparr>,
      [], Polling)
   \<and> data1_text \<noteq> last_cb_content initial_rstate \<and> data1_text \<noteq> []
   \<and> fst (receive_tick demo_lib initial_rstate data1_text)
       = fst (handle_content demo_lib (initial_rstate\<lparr>last_cb_content := data1_text\<rparr>) data1_text)
   \<and> sender_step demo_lib demo_job_rec
        \<lparr>chunk_index = 0, sender_pc = Awaiting 0, sender_last_cb = single_text\<rparr> (1, single_text) =
        (\<lparr>chunk_index = 0, sender_pc = Awaiting 0, sender_last_cb = single_text\<rparr>, [])
   \<and> sender_last_cb (fst (sender_step demo_lib demo_job_rec
        \<lparr>chunk_index = 0, sender_pc = Awaiting 0, sender_last_cb = single_text\<rparr> (2, []))) = []"
proof -
  have t: "(1::real) - 0 < ACK_TIMEOUT_SECONDS" "(2::real) - 0 < ACK_TIMEOUT_SECONDS"
    by (simp_all add: ACK_TIMEOUT_SECONDS_def)
  have n: "data1_text \<noteq> last_cb_content initial_rstate" "data1_text \<noteq> []"
    "[] \<noteq> single_text"
    using demo_texts_nonempty by (auto simp: initial_rstate_def)
  from poller_skips_seen_content [of "[]"
      "\<lparr>stored_chunks = [(KInt 1, ''QUJD'')], total_chunks = JInt 2,
        file_hash = JStr ''#ABC'', archive_type = JNull, last_cb_content = ack1_text\<rparr>"
      demo_lib data1_text initial_rstate
      "\<lparr>chunk_index = 0, sender_pc = Awaiting 0, sender_last_cb = single_text\<rparr>" 0
      "(1, single_text)" demo_job_rec
      "\<lparr>chunk_index = 0, sender_pc = Awaiting 0, sender_last_cb = single_text\<rparr>" 0
      "(2, [])"] t n
  show ?thesis by simp
qed

section \<open>An empty file\<close>

lemma receive_loop_skip_empty:
  "receive_loop L s (replicate k [] @ rest) = receive_loop L s rest"
  by (induction k) (simp_all add: receive_tick_def)

lemma receive_tick_finish:
  assumes "json_loads L cb = Some finish_packet" and "cb \<noteq> []" and "cb \<noteq> last_cb_content s"
  shows "receive_tick L s cb = (s\<lparr>last_cb_content := cb\<rparr>, [], Finished)"
  using assms
  by (simp add: receive_tick_def handle_content_def try_body_def finish_packet_def dict_get_def)

lemma total_chunks_of_empty: "total_chunks_of [] = 0"
  by (simp add: total_chunks_of_def)

text \<open>
  Claim C10. For a file of zero bytes the encoded text is empty, \<^verbatim>\<open>total_chunks\<close> is 0, and
  whatever the Sender observes, all it writes is the Finish packet. A Receiver that reads
  an empty clipboard any number of times and then the Finish packet leaves its loop on it
  with \<^verbatim>\<open>total_chunks\<close> still \<^verbatim>\<open>-1\<close> and nothing stored, writes nothing, reports
  \<open>Incomplete\<close> with 0 chunks and writes no file. The library is assumed to load the
  Finish packet it dumped, as a non-empty text.
\<close>

theorem empty_file_transfer:
  assumes "json_loads L (json_dumps L finish_packet) = Some finish_packet"
    and "json_dumps L finish_packet \<noteq> []"
  shows "total_chunks_of (base64_string (prepare_job L [] ext)) = 0
       \<and> run_send_mode L [] ext obs =
           (\<lparr>chunk_index = 0, sender_pc = Done, sender_last_cb = []\<rparr>, [json_dumps L finish_packet])
       \<and> receive_loop L initial_rstate (replicate k [] @ json_dumps L finish_packet # rest) =
           (initial_rstate\<lparr>last_cb_content := json_dumps L finish_packet\<rparr>, [], Finished)
       \<and> run_receive_mode L output_filename can_write
            (replicate k [] @ json_dumps L finish_packet # rest) =
           Some ([], Incomplete 0 (JInt (- 1)))
       \<and> file_written (Incomplete 0 (JInt (- 1))) = None"
proof -
  have job: "base64_string (prepare_job L [] ext) = []"
    by (simp add: prepare_job_def)
  then have tc: "total_chunks_of (base64_string (prepare_job L [] ext)) = 0"
    by (simp add: total_chunks_of_empty)
  have send: "run_send_mode L [] ext obs =
           (\<lparr>chunk_index = 0, sender_pc = Done, sender_last_cb = []\<rparr>, [json_dumps L finish_packet])"
    by (simp add: run_send_mode_def Let_def sender_start_def tc sender_run_Done)
  from assms have "json_dumps L finish_packet \<noteq> last_cb_content initial_rstate"
    by (simp add: initial_rstate_def)
  with assms have tick: "receive_tick L initial_rstate (json_dumps L finish_packet) =
      (initial_rstate\<lparr>last_cb_content := json_dumps L finish_packet\<rparr>, [], Finished)"
    by (simp add: receive_tick_finish)
  then have loop: "receive_loop L initial_rstate (replicate k [] @ json_dumps L finish_packet # rest) =
           (initial_rstate\<lparr>last_cb_content := json_dumps L finish_packet\<rparr>, [], Finished)"
    by (simp add: receive_loop_skip_empty)
  then have "run_receive_mode L output_filename can_write
            (replicate k [] @ json_dumps L finish_packet # rest) =
           Some ([], Incomplete 0 (JInt (- 1)))"
    by (simp add: run_receive_mode_def finalize_def initial_rstate_def)
  with tc send loop show ?thesis by simp
qed

theorem empty_file_transfer_witness:
  "json_loads demo_lib (json_dumps demo_lib finish_packet) = Some finish_packet
   \<and> json_dumps demo_lib finish_packet \<noteq> []
   \<and> run_send_mode demo_lib [] None [(0, []), (1, ack1_text)] =
        (\<lparr>chunk_index = 0, sender_pc = Done, sender_last_cb = []\<rparr>, [finish_text])
   \<and> run_receive_mode demo_lib ''out.bin'' True ([] # [] # finish_text # [data1_text]) =
        Some ([], Incomplete 0 (JInt (- 1)))"
proof -
  have h1: "json_loads demo_lib (json_dumps demo_lib finish_packet) = Some finish_packet"
    by (simp add: demo_dumps demo_loads)
  have h2: "json_dumps demo_lib finish_packet \<noteq> []"
    by (simp add: demo_dumps demo_texts_nonempty)
  from empty_file_transfer [OF h1 h2, of None "[(0, []), (1, ack1_text)]" 2 "[data1_text]"
      "''out.bin''" True] h1 h2
  show ?thesis by (simp add: demo_dumps numeral_2_eq_2)
qed

section \<open>The codec is reversible\<close>

lemma of_nat_unat_byte: "of_nat (unat (v::byte)) = v"
  by simp

lemma unat_eq_numeral: "unat (v::byte) = 62 \<Longrightarrow> v = 62" "unat (v::byte) = 63 \<Longrightarrow> v = 63"
  by (metis of_nat_unat_byte of_nat_numeral)+

lemma b64_value_char:
  assumes "unat (v::byte) < 64"
  shows "b64_value (b64_char v) = Some v"
proof -
  define n where "n = unat v"
  have v: "of_nat n = v" by (simp add: n_def)
  consider "n < 26" | "26 \<le> n" "n < 52" | "52 \<le> n" "n < 62" | "n = 62" | "n = 63"
    using assms unfolding n_def by linarith
  then show ?thesis
  proof cases
    case 1
    define m where "m = 65 + n"
    from 1 have m: "65 \<le> m" "m \<le> 90" "m - 65 = n" "(of_char (char_of m) :: nat) = m"
      by (simp_all add: m_def)
    from 1 have "b64_char v = char_of m" by (simp add: b64_char_def Let_def m_def flip: n_def)
    with m v show ?thesis by (simp add: b64_value_def Let_def)
  next
    case 2
    define m where "m = 71 + n"
    from 2 have m: "\<not> m \<le> 90" "97 \<le> m" "m \<le> 122" "m - 71 = n"
      "(of_char (char_of m) :: nat) = m"
      by (simp_all add: m_def)
    from 2 have "b64_char v = char_of m" by (simp add: b64_char_def Let_def m_def flip: n_def)
    with m v show ?thesis by (simp add: b64_value_def Let_def)
  next
    case 3
    define m where "m = n - 4"
    from 3 have m: "\<not> 65 \<le> m" "\<not> 97 \<le> m" "48 \<le> m" "m \<le> 57" "m + 4 = n"
      "(of_char (char_of m) :: nat) = m"
      by (simp_all add: m_def)
    from 3 have "b64_char v = char_of m" by (simp add: b64_char_def Let_def m_def flip: n_def)
    with m v show ?thesis by (simp add: b64_value_def Let_def)
  next
    case 4
    then show ?thesis using unat_eq_numeral(1) [of v]
      by (simp add: b64_char_def b64_value_def Let_def n_def)
  next
    case 5
    then show ?thesis using unat_eq_numeral(2) [of v]
      by (simp add: b64_char_def b64_value_def Let_def n_def)
  qed
qed

lemma b64_char_ascii: "(of_char (b64_char v) :: nat) < 128"
proof -
  have "unat v < 26 \<Longrightarrow> (65 + unat v) mod 256 < 128" by simp
  moreover have "unat v < 52 \<Longrightarrow> (71 + unat v) mod 256 < 128" by simp
  moreover have "unat v < 62 \<Longrightarrow> (unat v - 4) mod 256 < 128" by simp
  ultimately show ?thesis by (simp add: b64_char_def Let_def)
qed

lemma b64_char_not_pad: "b64_char v \<noteq> CHR ''=''"
proof
  assume "b64_char v = CHR ''=''"
  then have "(of_char (b64_char v) :: nat) = 61" by simp
  moreover have "unat v < 26 \<Longrightarrow> (65 + unat v) mod 256 \<noteq> 61" by simp
  moreover have "\<not> unat v < 26 \<Longrightarrow> unat v < 52 \<Longrightarrow> (71 + unat v) mod 256 \<noteq> 61" by simp
  moreover have "\<not> unat v < 52 \<Longrightarrow> unat v < 62 \<Longrightarrow> (unat v - 4) mod 256 \<noteq> 61" by simp
  ultimately show False by (simp add: b64_char_def Let_def split: if_splits)
qed


lemma mask_as_take_bit:
  "(a::byte) AND 3 = take_bit 2 a" "(a::byte) AND 15 = take_bit 4 a" "(a::byte) AND 63 = take_bit 6 a"
  by (simp_all add: take_bit_eq_mask mask_eq_exp_minus_1)

lemma bit_index_shift:
  "2 \<le> n \<Longrightarrow> Suc (Suc (n - 2)) = n" "4 \<le> n \<Longrightarrow> 4 + (n - 4) = n" "6 \<le> n \<Longrightarrow> 6 + (n - 6) = n"
  by simp_all

lemma byte_bit_high: "8 \<le> n \<Longrightarrow> \<not> bit (a::byte) n"
  by (auto dest: bit_imp_le_length)

lemma sextet_bitI:
  assumes "\<And>n. 6 \<le> n \<Longrightarrow> \<not> bit (x::byte) n"
  shows "unat x < 64"
proof -
  have "take_bit 6 x = x"
  proof (rule bit_word_eqI)
    fix n
    show "bit (take_bit 6 x) n = bit x n"
      using assms [of n] by (cases "n < 6") (simp_all add: bit_take_bit_iff)
  qed
  moreover have "unat (take_bit 6 x) = take_bit 6 (unat x)" by (rule unsigned_take_bit_eq)
  moreover have "take_bit 6 (unat x) < 2 ^ 6" by (rule take_bit_nat_less_exp)
  ultimately show ?thesis by simp
qed

lemma sextet1: "unat (drop_bit 2 (a::byte)) < 64"
proof (rule sextet_bitI)
  fix n :: nat
  assume "6 \<le> n"
  then have "8 \<le> 2 + n" by simp
  then show "\<not> bit (drop_bit 2 a) n"
    by (simp add: bit_drop_bit_eq byte_bit_high)
qed

lemma sextet2: "unat (push_bit 4 ((a::byte) AND 3) OR drop_bit 4 (b::byte)) < 64"
  unfolding mask_as_take_bit
proof (rule sextet_bitI)
  fix n :: nat
  assume "6 \<le> n"
  then have "8 \<le> 4 + n" "\<not> n - 4 < 2" by simp_all
  then show "\<not> bit (push_bit 4 (take_bit 2 a) OR drop_bit 4 b) n"
    by (simp add: bit_or_iff bit_push_bit_iff bit_take_bit_iff bit_drop_bit_eq byte_bit_high)
qed

lemma sextet3: "unat (push_bit 2 ((b::byte) AND 15) OR drop_bit 6 (c::byte)) < 64"
  unfolding mask_as_take_bit
proof (rule sextet_bitI)
  fix n :: nat
  assume "6 \<le> n"
  then have "8 \<le> 6 + n" "\<not> n - 2 < 4" by simp_all
  then show "\<not> bit (push_bit 2 (take_bit 4 b) OR drop_bit 6 c) n"
    by (simp add: bit_or_iff bit_push_bit_iff bit_take_bit_iff bit_drop_bit_eq byte_bit_high)
qed

lemma sextet4: "unat ((c::byte) AND 63) < 64"
  unfolding mask_as_take_bit
proof (rule sextet_bitI)
  fix n :: nat
  assume "6 \<le> n"
  then show "\<not> bit (take_bit 6 c) n"
    by (simp add: bit_take_bit_iff)
qed

lemma sextet2_tail: "unat (push_bit 4 ((a::byte) AND 3)) < 64"
  using sextet2 [of a 0] by simp

lemma sextet3_tail: "unat (push_bit 2 ((b::byte) AND 15)) < 64"
  using sextet3 [of b 0] by simp

lemma octet1:
  "push_bit 2 (drop_bit 2 a) OR drop_bit 4 (push_bit 4 (a AND 3) OR drop_bit 4 b) = (a::byte)"
  unfolding mask_as_take_bit
proof (rule bit_word_eqI)
  fix n
  assume "n < LENGTH(8)"
  then show "bit (push_bit 2 (drop_bit 2 a) OR drop_bit 4 (push_bit 4 (take_bit 2 a) OR drop_bit 4 b)) n
               = bit a n"
    by (cases "2 \<le> n") (auto simp: bit_simps bit_index_shift)
qed

lemma octet2:
  "push_bit 4 ((push_bit 4 (a AND 3) OR drop_bit 4 b) AND 15)
     OR drop_bit 2 (push_bit 2 (b AND 15) OR drop_bit 6 c) = (b::byte)"
  unfolding mask_as_take_bit
  by (rule bit_word_eqI) (auto simp: bit_simps bit_index_shift)

lemma octet3:
  "push_bit 6 ((push_bit 2 (b AND 15) OR drop_bit 6 c) AND 3) OR (c AND 63) = (c::byte)"
  unfolding mask_as_take_bit
  by (rule bit_word_eqI) (auto simp: bit_simps bit_index_shift)

lemma octet1_tail:
  "push_bit 2 (drop_bit 2 a) OR drop_bit 4 (push_bit 4 (a AND 3)) = (a::byte)"
  using octet1 [of a 0] by simp

lemma octet2_tail:
  "push_bit 4 ((push_bit 4 (a AND 3) OR drop_bit 4 b) AND 15)
     OR drop_bit 2 (push_bit 2 (b AND 15)) = (b::byte)"
  using octet2 [of a b 0] by simp

lemma a2b_value_step:
  assumes "unat (v::byte) < 64"
  shows "a2b_base64 qp lc pads out (b64_char v # rest) =
           (if qp = 0 then a2b_base64 1 v 0 out rest
            else if qp = 1 then
              a2b_base64 2 (v AND 15) 0 (out @ [push_bit 2 lc OR drop_bit 4 v]) rest
            else if qp = 2 then
              a2b_base64 3 (v AND 3) 0 (out @ [push_bit 4 lc OR drop_bit 2 v]) rest
            else a2b_base64 0 0 0 (out @ [push_bit 6 lc OR v]) rest)"
  using b64_value_char [OF assms] b64_char_not_pad [of v] by simp

lemma a2b_pair:
  assumes "unat (s1::byte) < 64" and "unat (s2::byte) < 64"
  shows "a2b_base64 0 lc 0 out (b64_char s1 # b64_char s2 # rest) =
           a2b_base64 2 (s2 AND 15) 0 (out @ [push_bit 2 s1 OR drop_bit 4 s2]) rest"
  by (simp add: a2b_value_step assms del: a2b_base64.simps)

lemma a2b_triple:
  assumes "unat (s1::byte) < 64" and "unat (s2::byte) < 64" and "unat (s3::byte) < 64"
  shows "a2b_base64 0 lc 0 out (b64_char s1 # b64_char s2 # b64_char s3 # rest) =
           a2b_base64 3 (s3 AND 3) 0
             (out @ [push_bit 2 s1 OR drop_bit 4 s2, push_bit 4 (s2 AND 15) OR drop_bit 2 s3]) rest"
  by (simp add: a2b_pair a2b_value_step assms del: a2b_base64.simps)

lemma a2b_quad:
  assumes "unat (s1::byte) < 64" and "unat (s2::byte) < 64" and "unat (s3::byte) < 64"
    and "unat (s4::byte) < 64"
  shows "a2b_base64 0 lc 0 out (b64_char s1 # b64_char s2 # b64_char s3 # b64_char s4 # rest) =
           a2b_base64 0 0 0
             (out @ [push_bit 2 s1 OR drop_bit 4 s2, push_bit 4 (s2 AND 15) OR drop_bit 2 s3,
                     push_bit 6 (s3 AND 3) OR s4]) rest"
  by (simp add: a2b_triple a2b_value_step assms del: a2b_base64.simps)

lemma a2b_pads:
  "a2b_base64 2 lc 0 out [CHR ''='', CHR ''=''] = Inr out"
  "a2b_base64 3 lc 0 out [CHR ''=''] = Inr out"
  by simp_all

lemma a2b_encoded:
  "a2b_base64 0 lc 0 out (b64encode bs) = Inr (out @ bs)"
proof (induction bs arbitrary: lc out rule: b64encode.induct)
  case (1 a b c rest)
  have "a2b_base64 0 lc 0 out (b64encode (a # b # c # rest)) =
          a2b_base64 0 lc 0 out
            (b64_char (drop_bit 2 a) # b64_char (push_bit 4 (a AND 3) OR drop_bit 4 b) #
             b64_char (push_bit 2 (b AND 15) OR drop_bit 6 c) # b64_char (c AND 63) #
             b64encode rest)"
    by (simp only: b64encode.simps append.simps)
  also have "\<dots> = a2b_base64 0 0 0
      (out @ [push_bit 2 (drop_bit 2 a) OR drop_bit 4 (push_bit 4 (a AND 3) OR drop_bit 4 b),
              push_bit 4 ((push_bit 4 (a AND 3) OR drop_bit 4 b) AND 15)
                OR drop_bit 2 (push_bit 2 (b AND 15) OR drop_bit 6 c),
              push_bit 6 ((push_bit 2 (b AND 15) OR drop_bit 6 c) AND 3) OR (c AND 63)])
      (b64encode rest)"
    by (rule a2b_quad [OF sextet1 sextet2 sextet3 sextet4])
  also have "\<dots> = a2b_base64 0 0 0 (out @ [a, b, c]) (b64encode rest)"
    by (simp only: octet1 octet2 octet3)
  also have "\<dots> = Inr ((out @ [a, b, c]) @ rest)"
    by (rule "1.IH")
  finally show ?case by simp
next
  case (2 a b)
  have "a2b_base64 0 lc 0 out (b64encode [a, b]) =
          a2b_base64 0 lc 0 out
            [b64_char (drop_bit 2 a), b64_char (push_bit 4 (a AND 3) OR drop_bit 4 b),
             b64_char (push_bit 2 (b AND 15)), CHR ''='']"
    by (simp only: b64encode.simps)
  also have "\<dots> = a2b_base64 3 (push_bit 2 (b AND 15) AND 3) 0
      (out @ [push_bit 2 (drop_bit 2 a) OR drop_bit 4 (push_bit 4 (a AND 3) OR drop_bit 4 b),
              push_bit 4 ((push_bit 4 (a AND 3) OR drop_bit 4 b) AND 15)
                OR drop_bit 2 (push_bit 2 (b AND 15))])
      [CHR ''='']"
    by (rule a2b_triple [OF sextet1 sextet2 sextet3_tail])
  also have "\<dots> = Inr (out @ [a, b])"
    by (simp only: octet1 octet2_tail a2b_pads)
  finally show ?case .
next
  case (3 a)
  have "a2b_base64 0 lc 0 out (b64encode [a]) =
          a2b_base64 0 lc 0 out
            [b64_char (drop_bit 2 a), b64_char (push_bit 4 (a AND 3)), CHR ''='', CHR ''='']"
    by (simp only: b64encode.simps)
  also have "\<dots> = a2b_base64 2 (push_bit 4 (a AND 3) AND 15) 0
      (out @ [push_bit 2 (drop_bit 2 a) OR drop_bit 4 (push_bit 4 (a AND 3))])
      [CHR ''='', CHR ''='']"
    by (rule a2b_pair [OF sextet1 sextet2_tail])
  also have "\<dots> = Inr (out @ [a])"
    by (simp only: octet1_tail a2b_pads)
  finally show ?case .
next
  case 4
  show ?case by simp
qed

lemma b64encode_ascii: "\<not> list_ex (\<lambda>ch. 128 \<le> (of_char ch :: nat)) (b64encode bs)"
  by (induction bs rule: b64encode.induct) (simp_all add: b64_char_ascii not_le)

lemma b64decode_encoded: "b64decode (b64encode bs) = Inr bs"
  using a2b_encoded [of 0 "[]" bs] by (simp add: b64decode_def b64encode_ascii)

text \<open>
  Claim C9. For every byte string, the empty one included, decoding its encoding gives the
  byte string back, without an error; and so does decoding the concatenation of the
  chunks into which the Sender cuts the encoded text, however many chunks there are.
\<close>

theorem base64_roundtrip:
  "b64decode (b64encode bs) = Inr bs
   \<and> b64decode (concat (sender_chunks (b64encode bs))) = Inr bs"
  by (simp add: b64decode_encoded concat_sender_chunks)

section \<open>A complete transfer\<close>

text \<open>
  The three bytes \<^verbatim>\<open>ABC\<close> fit into one chunk. A Receiver that reads the Sender's packet
  stores it, writes the ack, leaves its loop on completion, and saves the three bytes with
  a matching hash.
\<close>

lemma b64decode_QUJD: "b64decode ''QUJD'' = Inr [65, 66, 67]"
  using b64decode_encoded [of "[65, 66, 67]"] by (simp only: b64_ABC)

lemma demo_complete_transfer:
  "run_receive_mode demo_lib ''out.bin'' True [[], single_text] =
     Some ([ack1_text], Saved ''out.bin'' [65, 66, 67] Verified)"
proof -
  have "receive_loop demo_lib initial_rstate [[], single_text] =
     (\<lparr>stored_chunks = [(KInt 1, ''QUJD'')], total_chunks = JInt 1, file_hash = JStr ''#ABC'',
       archive_type = JNull, last_cb_content = ack1_text\<rparr>, [ack1_text], Completed)"
    by (simp add: receiver_eval demo_texts_distinct demo_loads demo_dumps demo_sha_text)
  then show ?thesis
    by (simp add: run_receive_mode_def finalize_def final_path_of_def sorted_keys_def
          b64decode_QUJD demo_sha_ABC)
qed

end
